theory Spec2Isabelle
  imports Main "HOL-Library.Multiset" "HOL-Library.Char_ord" "HOL-Library.List_Lexorder"
begin

section \<open>Configuration constants (main.py, lines 47-59)\<close>

definition MEMBERS_PER_FIELD :: nat where "MEMBERS_PER_FIELD = 15"
definition MAX_FIELDS_PER_EMBED :: nat where "MAX_FIELDS_PER_EMBED = 3"
definition REQUEST_DELAY :: nat where "REQUEST_DELAY = 3"
definition MAX_RETRIES :: nat where "MAX_RETRIES = 1"
definition RETRY_DELAY :: nat where "RETRY_DELAY = 5"
definition CHECK_LIMIT :: nat where "CHECK_LIMIT = 15"

section \<open>Strings\<close>

text \<open>
  Strings are byte lists. \<open>str.lower\<close>, \<open>str.upper\<close> and \<open>str.strip\<close> are modelled on
  ASCII: letters \<open>A..Z\<close> and \<open>a..z\<close> are mapped, the ASCII white space of Python
  (\<open>0x09..0x0d\<close>, \<open>0x1c..0x20\<close>) is stripped, every other byte is left alone.
\<close>

definition lower_char :: "char \<Rightarrow> char" where
  "lower_char c =
     (case map_of (zip ''ABCDEFGHIJKLMNOPQRSTUVWXYZ'' ''abcdefghijklmnopqrstuvwxyz'') c of
        Some d \<Rightarrow> d | None \<Rightarrow> c)"

definition upper_char :: "char \<Rightarrow> char" where
  "upper_char c =
     (case map_of (zip ''abcdefghijklmnopqrstuvwxyz'' ''ABCDEFGHIJKLMNOPQRSTUVWXYZ'') c of
        Some d \<Rightarrow> d | None \<Rightarrow> c)"

definition lower :: "string \<Rightarrow> string" where
  "lower s = map lower_char s"

definition upper :: "string \<Rightarrow> string" where
  "upper s = map upper_char s"

definition is_space :: "char \<Rightarrow> bool" where
  "is_space c \<longleftrightarrow>
     (let n = (of_char c :: nat) in (9 \<le> n \<and> n \<le> 13) \<or> (28 \<le> n \<and> n \<le> 32))"

definition strip :: "string \<Rightarrow> string" where
  "strip s = rev (dropWhile is_space (rev (dropWhile is_space s)))"

section \<open>Data model\<close>

text \<open>A row of table \<open>servers\<close>, as the dictionary \<open>get_server_config\<close> returns it.
  The two channel ids are \<open>TEXT\<close> columns that the code converts with \<open>int(...)\<close>;
  \<open>None\<close> is SQL \<open>NULL\<close>.\<close>

record config =
  admin_role_id :: "string option"
  list_channel_id :: "nat option"
  log_channel_id :: "nat option"
  guild_name :: string
  autoremove :: bool

text \<open>A row of table \<open>members\<close>; primary key \<open>(server_id, normalized_name)\<close>.\<close>

record member =
  m_server :: string
  m_name :: string
  m_normalized :: string
  m_status :: string
  last_checked :: nat

text \<open>A row of table \<open>messages\<close>; primary key \<open>(server_id, message_id)\<close>.\<close>

record message_row =
  r_server :: string
  r_message :: nat
  embed_index :: nat

text \<open>
  An embed, kept structured: the title carries the upper-cased guild name, the footer the
  pair \<open>(page, pages)\<close> of \<open>Page p of n\<close>, and each field is \<open>(g, lines)\<close> for the
  field named \<open>Group g\<close> whose value is one line per member, the pair \<open>(label, name)\<close>
  standing for the formatted line of label and name.
\<close>

record embed =
  embed_title :: string
  embed_footer :: "nat \<times> nat"
  embed_fields :: "(nat \<times> (nat \<times> string) list) list"

datatype content = EmbedMsg embed | LogMsg nat string

text \<open>
  What a call of the messaging platform can raise. \<open>NotFound\<close> is the subclass the code
  catches first; \<open>HTTPException status\<close> is every other HTTP failure, with its attribute
  \<open>status\<close> (the class of the library has the attributes \<open>response\<close>, \<open>status\<close>,
  \<open>code\<close> and \<open>text\<close>, and no attribute \<open>retry_after\<close>); \<open>OtherException\<close> is any
  exception that is not an \<open>HTTPException\<close>.
\<close>

datatype exn = NotFound | HTTPException nat | OtherException

datatype op = Sent nat nat content | Edited nat content | Deleted nat

text \<open>
  The outcome of one \<open>requests.get\<close>: a response with its status code and the result of
  parsing the body and evaluating the XPath query (\<open>None\<close> when \<open>html.fromstring\<close> or the
  query raises), or an exception of the request itself (time-out, connection error).
\<close>

datatype http_outcome = Response nat "string list option" | RequestException

text \<open>
  The values \<open>check_aqw_guild\<close> can return: a boolean, \<open>None\<close>, or the empty list that
  \<open>guild_element and ...\<close> evaluates to when the query found nothing.
\<close>

datatype pyval = PyBool bool | PyNone | PyEmptyList

fun truthy :: "pyval \<Rightarrow> bool" where
  "truthy (PyBool b) = b"
| "truthy PyNone = False"
| "truthy PyEmptyList = False"

fun is_bool :: "pyval \<Rightarrow> bool" where
  "is_bool (PyBool b) = True"
| "is_bool PyNone = False"
| "is_bool PyEmptyList = False"

text \<open>
  The state the program runs in: the three tables of the database, the clock (milliseconds;
  it advances by the sleeps of the program), the verification source as the list of outcomes
  of the coming requests and the log of requests sent, the memo of \<open>lru_cache\<close>, and the
  messaging platform: the channels the bot can see (with the permission to send), the
  messages that exist (id, channel, content), the id the next message gets, the errors the
  coming platform calls raise (\<open>None\<close>: the call goes through), and the log of the
  operations that took effect.
\<close>

record world =
  servers :: "(string \<times> config) list"
  members :: "member list"
  messages :: "message_row list"
  clock :: nat
  responses :: "http_outcome list"
  requested :: "string list"
  memo :: "((string \<times> string) \<times> pyval) list"
  channels :: "(nat \<times> bool) list"
  posted :: "(nat \<times> nat \<times> content) list"
  next_id :: nat
  faults :: "exn option list"
  ops :: "op list"

definition sleep :: "nat \<Rightarrow> world \<Rightarrow> world" where
  "sleep ms w = w\<lparr>clock := clock w + ms\<rparr>"

definition time_now :: "world \<Rightarrow> nat" where
  "time_now w = clock w div 1000"

section \<open>Verification client (AQWUtils.check_aqw_guild, lines 256-288)\<close>

definition http_get :: "string \<Rightarrow> world \<Rightarrow> http_outcome \<times> world" where
  "http_get name w =
     (case responses w of
        [] \<Rightarrow> (RequestException, w\<lparr>requested := requested w @ [name]\<rparr>)
      | r # rs \<Rightarrow> (r, w\<lparr>responses := rs, requested := requested w @ [name]\<rparr>))"

text \<open>The loop \<open>for attempt in range(MAX_RETRIES)\<close>; falling off its end returns \<open>None\<close>.\<close>

fun check_attempts :: "nat list \<Rightarrow> string \<Rightarrow> string \<Rightarrow> world \<Rightarrow> pyval \<times> world" where
  "check_attempts [] name aqw_guild_name w = (PyNone, w)"
| "check_attempts (attempt # rest) name aqw_guild_name w =
     (case http_get name w of
        (RequestException, w1) \<Rightarrow> (PyBool False, w1)
      | (Response status body, w1) \<Rightarrow>
          if 400 \<le> status \<and> status < 600 then
            (if status = 429
             then check_attempts rest name aqw_guild_name
                    (sleep (RETRY_DELAY * (attempt + 1) * 1000) w1)
             else (PyBool False, w1))
          else
            (case body of
               None \<Rightarrow> (PyBool False, w1)
             | Some guild_element \<Rightarrow>
                 (case guild_element of
                    [] \<Rightarrow> (PyEmptyList, w1)
                  | g # _ \<Rightarrow> (PyBool (lower (strip g) = lower aqw_guild_name), w1))))"

definition check_aqw_guild_body :: "string \<Rightarrow> string \<Rightarrow> world \<Rightarrow> pyval \<times> world" where
  "check_aqw_guild_body name aqw_guild_name w =
     check_attempts [0..<MAX_RETRIES] name aqw_guild_name w"

text \<open>
  The decorator \<open>lru_cache(maxsize=1000)\<close>: a hit returns the stored value and makes the
  entry the most recent; a miss runs the body, stores the value in front and drops the least
  recent entry beyond the capacity.
\<close>

definition check_aqw_guild :: "string \<Rightarrow> string \<Rightarrow> world \<Rightarrow> pyval \<times> world" where
  "check_aqw_guild name aqw_guild_name w =
     (let k = (name, aqw_guild_name) in
      case map_of (memo w) k of
        Some v \<Rightarrow> (v, w\<lparr>memo := (k, v) # filter (\<lambda>e. fst e \<noteq> k) (memo w)\<rparr>)
      | None \<Rightarrow>
          (case check_aqw_guild_body name aqw_guild_name w of
             (v, w1) \<Rightarrow> (v, w1\<lparr>memo := take 1000 ((k, v) # memo w1)\<rparr>)))"

section \<open>Rendering (DiscordUtils.create_list_embeds, lines 334-367)\<close>

definition members_per_embed :: nat where
  "members_per_embed = MEMBERS_PER_FIELD * MAX_FIELDS_PER_EMBED"

text \<open>\<open>[members[i:i + n] for i in range(0, len(members), n)]\<close>\<close>

definition chunks_of :: "nat \<Rightarrow> 'a list \<Rightarrow> 'a list list" where
  "chunks_of n xs = map (\<lambda>i. take n (drop i xs)) (filter (\<lambda>i. i mod n = 0) [0..<length xs])"

definition column_size_of :: "'a list \<Rightarrow> nat" where
  "column_size_of chunk = length chunk div MAX_FIELDS_PER_EMBED + 1"

text \<open>\<open>chunk[start:end]\<close> for column \<open>i\<close>\<close>

definition field_members :: "'a list \<Rightarrow> nat \<Rightarrow> 'a list" where
  "field_members chunk i =
     (let start = i * column_size_of chunk in take (column_size_of chunk) (drop start chunk))"

definition field_lines :: "nat \<Rightarrow> (string \<times> string) list \<Rightarrow> nat \<Rightarrow> (nat \<times> string) list" where
  "field_lines chunk_idx chunk i =
     map (\<lambda>(j, (name, _)). ((j + 1) + (i * column_size_of chunk) + (chunk_idx * members_per_embed), name))
         (enumerate 0 (field_members chunk i))"

definition create_embed :: "string \<Rightarrow> nat \<Rightarrow> nat \<Rightarrow> (string \<times> string) list \<Rightarrow> embed" where
  "create_embed guild chunk_count chunk_idx chunk =
     \<lparr> embed_title = upper guild,
       embed_footer = (chunk_idx + 1, chunk_count),
       embed_fields = concat (map (\<lambda>i. if field_members chunk i = [] then []
                                  else [(i + 1, field_lines chunk_idx chunk i)])
                            [0..<MAX_FIELDS_PER_EMBED]) \<rparr>"

definition create_list_embeds :: "string \<Rightarrow> (string \<times> string) list \<Rightarrow> embed list" where
  "create_list_embeds guild ms =
     (let chunks = chunks_of members_per_embed ms in
      map (\<lambda>(chunk_idx, chunk). create_embed guild (length chunks) chunk_idx chunk)
          (enumerate 0 chunks))"

text \<open>The sizes of the columns of a page, in order.\<close>

definition column_sizes :: "embed \<Rightarrow> nat list" where
  "column_sizes e = map (\<lambda>f. length (snd f)) (embed_fields e)"

section \<open>Data access layer (class Database, lines 125-248)\<close>

definition get_server_config :: "string \<Rightarrow> world \<Rightarrow> config option" where
  "get_server_config server_id w = map_of (servers w) server_id"

definition server_rows :: "string \<Rightarrow> world \<Rightarrow> member list" where
  "server_rows server_id w = filter (\<lambda>m. m_server m = server_id) (members w)"

text \<open>\<open>ORDER BY name COLLATE NOCASE\<close>: byte order after folding ASCII upper case.\<close>

definition get_members :: "string \<Rightarrow> world \<Rightarrow> (string \<times> string) list" where
  "get_members server_id w =
     map (\<lambda>m. (m_name m, m_status m)) (sort_key (\<lambda>m. lower (m_name m)) (server_rows server_id w))"

definition member_exists :: "string \<Rightarrow> string \<Rightarrow> world \<Rightarrow> bool" where
  "member_exists server_id name w =
     (filter (\<lambda>m. m_normalized m = lower name) (server_rows server_id w) \<noteq> [])"

text \<open>\<open>INSERT OR IGNORE\<close>: a row with the same primary key leaves the table as it is.\<close>

definition add_member :: "string \<Rightarrow> string \<Rightarrow> world \<Rightarrow> world" where
  "add_member server_id name w =
     (if member_exists server_id name w then w
      else w\<lparr>members := members w @
             [\<lparr>m_server = server_id, m_name = name, m_normalized = lower name,
               m_status = [], last_checked = time_now w\<rparr>]\<rparr>)"

definition remove_member :: "string \<Rightarrow> string \<Rightarrow> world \<Rightarrow> world" where
  "remove_member server_id name w =
     w\<lparr>members := filter (\<lambda>m. \<not> (m_server m = server_id \<and> m_normalized m = lower name))
                          (members w)\<rparr>"

definition update_last_checked :: "string \<Rightarrow> string \<Rightarrow> world \<Rightarrow> world" where
  "update_last_checked server_id name w =
     w\<lparr>members := map (\<lambda>m. if m_server m = server_id \<and> m_normalized m = lower name
                            then m\<lparr>last_checked := time_now w\<rparr> else m)
                       (members w)\<rparr>"

text \<open>
  \<open>save_message_ids\<close> deletes the rows of the server and inserts the new ones with their
  index. Two equal ids violate the primary key: the insert raises and nothing is
  committed (\<open>None\<close>).
\<close>

definition save_message_ids :: "string \<Rightarrow> nat list \<Rightarrow> world \<Rightarrow> world option" where
  "save_message_ids server_id message_ids w =
     (if distinct message_ids
      then Some (w\<lparr>messages := filter (\<lambda>r. r_server r \<noteq> server_id) (messages w) @
                     map (\<lambda>(idx, msg_id). \<lparr>r_server = server_id, r_message = msg_id, embed_index = idx\<rparr>)
                         (enumerate 0 message_ids)\<rparr>)
      else None)"

definition get_message_ids :: "string \<Rightarrow> world \<Rightarrow> nat list" where
  "get_message_ids server_id w =
     map r_message (sort_key embed_index (filter (\<lambda>r. r_server r = server_id) (messages w)))"

section \<open>The messaging platform\<close>

text \<open>
  Every call of the platform first takes the next entry of \<open>faults\<close>: an error there is
  raised by the call. Otherwise the call acts on the messages that exist: fetching, editing
  or deleting a message that does not exist raises \<open>NotFound\<close>, sending creates a message
  with a fresh id.
\<close>

definition next_fault :: "world \<Rightarrow> exn option \<times> world" where
  "next_fault w = (case faults w of [] \<Rightarrow> (None, w) | f # fs \<Rightarrow> (f, w\<lparr>faults := fs\<rparr>))"

definition get_channel :: "nat \<Rightarrow> world \<Rightarrow> bool option" where
  "get_channel ch w = map_of (channels w) ch"

definition fetch_message :: "nat \<Rightarrow> nat \<Rightarrow> world \<Rightarrow> (exn + nat) \<times> world" where
  "fetch_message ch msg_id w =
     (case next_fault w of
        (Some x, w1) \<Rightarrow> (Inl x, w1)
      | (None, w1) \<Rightarrow>
          (case map_of (posted w1) msg_id of
             None \<Rightarrow> (Inl NotFound, w1)
           | Some (c, _) \<Rightarrow> if c = ch then (Inr msg_id, w1) else (Inl NotFound, w1)))"

text \<open>The effects of an edit, of a new message and of a deletion on the platform.\<close>

definition store_edit :: "nat \<Rightarrow> content \<Rightarrow> world \<Rightarrow> world" where
  "store_edit msg_id new_content w =
     w\<lparr>posted := map (\<lambda>(i, c, x). if i = msg_id then (i, c, new_content) else (i, c, x))
                      (posted w),
       ops := ops w @ [Edited msg_id new_content]\<rparr>"

definition store_new :: "nat \<Rightarrow> content \<Rightarrow> world \<Rightarrow> world" where
  "store_new ch new_content w =
     w\<lparr>posted := posted w @ [(next_id w, ch, new_content)],
       next_id := Suc (next_id w),
       ops := ops w @ [Sent ch (next_id w) new_content]\<rparr>"

definition store_delete :: "nat \<Rightarrow> world \<Rightarrow> world" where
  "store_delete msg_id w =
     w\<lparr>posted := filter (\<lambda>e. fst e \<noteq> msg_id) (posted w),
       ops := ops w @ [Deleted msg_id]\<rparr>"

definition edit_message :: "nat \<Rightarrow> content \<Rightarrow> world \<Rightarrow> (exn + nat) \<times> world" where
  "edit_message msg_id new_content w =
     (case next_fault w of
        (Some x, w1) \<Rightarrow> (Inl x, w1)
      | (None, w1) \<Rightarrow>
          (case map_of (posted w1) msg_id of
             None \<Rightarrow> (Inl NotFound, w1)
           | Some _ \<Rightarrow> (Inr msg_id, store_edit msg_id new_content w1)))"

definition send :: "nat \<Rightarrow> content \<Rightarrow> world \<Rightarrow> (exn + nat) \<times> world" where
  "send ch new_content w =
     (case next_fault w of
        (Some x, w1) \<Rightarrow> (Inl x, w1)
      | (None, w1) \<Rightarrow> (Inr (next_id w1), store_new ch new_content w1))"

definition delete_message :: "nat \<Rightarrow> world \<Rightarrow> (exn + unit) \<times> world" where
  "delete_message msg_id w =
     (case next_fault w of
        (Some x, w1) \<Rightarrow> (Inl x, w1)
      | (None, w1) \<Rightarrow>
          (case map_of (posted w1) msg_id of
             None \<Rightarrow> (Inl NotFound, w1)
           | Some _ \<Rightarrow> (Inr (), store_delete msg_id w1)))"

section \<open>Display synchronisation (DiscordUtils.update_list, lines 369-436)\<close>

text \<open>The \<open>try\<close> block of the page loop (lines 389-400).\<close>

definition pace :: "nat \<Rightarrow> world \<Rightarrow> world" where
  "pace idx w = (if idx > 0 then sleep 2500 w else w)"

definition try_page :: "nat \<Rightarrow> nat list \<Rightarrow> nat \<Rightarrow> embed \<Rightarrow> world \<Rightarrow> (exn + nat) \<times> world" where
  "try_page ch existing_message_ids idx e w =
     (if idx < length existing_message_ids then
        (case fetch_message ch (existing_message_ids ! idx) (pace idx w) of
           (Inl x, w1) \<Rightarrow> (Inl x, w1)
         | (Inr msg, w1) \<Rightarrow> edit_message msg (EmbedMsg e) w1)
      else send ch (EmbedMsg e) (pace idx w))"

text \<open>
  One iteration of the page loop with its handlers (lines 388-413). The result \<open>None\<close> is
  an exception that leaves the loop: one that is not an \<open>HTTPException\<close>, any exception of
  the \<open>send\<close> inside the \<open>NotFound\<close> handler, and the \<open>AttributeError\<close> of the handler for
  status 429: its first statement (line 407) reads \<open>e.retry_after\<close>, which the exception
  does not have, so the handler raises before its \<open>sleep\<close> and its \<open>continue\<close>. Any other
  status is logged and the loop goes on with the next page.
\<close>

definition sync_page ::
  "nat \<Rightarrow> nat list \<Rightarrow> nat \<Rightarrow> embed \<Rightarrow> nat list \<Rightarrow> world \<Rightarrow> nat list option \<times> world" where
  "sync_page ch existing_message_ids idx e new_message_ids w =
     (case try_page ch existing_message_ids idx e w of
        (Inr msg, w1) \<Rightarrow> (Some (new_message_ids @ [msg]), w1)
      | (Inl NotFound, w1) \<Rightarrow>
          (case send ch (EmbedMsg e) w1 of
             (Inr msg, w2) \<Rightarrow> (Some (new_message_ids @ [msg]), w2)
           | (Inl x, w2) \<Rightarrow> (None, w2))
      | (Inl (HTTPException status), w1) \<Rightarrow>
          if status = 429 then (None, w1)
          else (Some new_message_ids, w1)
      | (Inl OtherException, w1) \<Rightarrow> (None, w1))"

fun sync_pages ::
  "nat \<Rightarrow> nat list \<Rightarrow> (nat \<times> embed) list \<Rightarrow> nat list \<Rightarrow> world \<Rightarrow> nat list option \<times> world" where
  "sync_pages ch existing_message_ids [] new_message_ids w = (Some new_message_ids, w)"
| "sync_pages ch existing_message_ids ((idx, e) # rest) new_message_ids w =
     (case sync_page ch existing_message_ids idx e new_message_ids w of
        (None, w1) \<Rightarrow> (None, w1)
      | (Some new1, w1) \<Rightarrow> sync_pages ch existing_message_ids rest new1 w1)"

text \<open>
  The handlers of the deletion loop (lines 420-430); \<open>False\<close>: an exception leaves the loop,
  which for status 429 is again the \<open>AttributeError\<close> of \<open>e.retry_after\<close> (line 424).
\<close>

definition delete_handler :: "exn \<Rightarrow> world \<Rightarrow> bool \<times> world" where
  "delete_handler x w =
     (case x of
        NotFound \<Rightarrow> (True, w)
      | HTTPException status \<Rightarrow>
          if status = 429 then (False, w) else (True, w)
      | OtherException \<Rightarrow> (False, w))"

definition delete_excess_message :: "nat \<Rightarrow> nat \<Rightarrow> world \<Rightarrow> bool \<times> world" where
  "delete_excess_message ch msg_id w =
     (case fetch_message ch msg_id w of
        (Inl x, w1) \<Rightarrow> delete_handler x w1
      | (Inr msg, w1) \<Rightarrow>
          (case delete_message msg w1 of
             (Inl x, w2) \<Rightarrow> delete_handler x w2
           | (Inr _, w2) \<Rightarrow> (True, w2)))"

fun delete_excess :: "nat \<Rightarrow> nat list \<Rightarrow> world \<Rightarrow> bool \<times> world" where
  "delete_excess ch [] w = (True, w)"
| "delete_excess ch (msg_id # rest) w =
     (case delete_excess_message ch msg_id w of
        (False, w1) \<Rightarrow> (False, w1)
      | (True, w1) \<Rightarrow> delete_excess ch rest w1)"

text \<open>
  \<open>update_list\<close>. Every exception that reaches the outer handler is logged there and the
  function returns: the state is the one reached when the exception was raised, and the
  message ids are not saved.
\<close>

definition pages_of :: "string \<Rightarrow> world \<Rightarrow> embed list" where
  "pages_of server_id w =
     (case get_server_config server_id w of
        None \<Rightarrow> []
      | Some cfg \<Rightarrow> create_list_embeds (guild_name cfg) (get_members server_id w))"

definition update_list :: "string \<Rightarrow> world \<Rightarrow> world" where
  "update_list server_id w =
     (case get_server_config server_id w of
        None \<Rightarrow> w
      | Some cfg \<Rightarrow>
          (let ms = get_members server_id w in
           case list_channel_id cfg of
             None \<Rightarrow> w
           | Some ch \<Rightarrow>
               (case get_channel ch w of
                  None \<Rightarrow> w
                | Some _ \<Rightarrow>
                    (let embeds = create_list_embeds (guild_name cfg) ms;
                         existing_message_ids = get_message_ids server_id w
                     in case sync_pages ch existing_message_ids (enumerate 0 embeds) [] w of
                          (None, w1) \<Rightarrow> w1
                        | (Some new_message_ids, w1) \<Rightarrow>
                            (case delete_excess ch (drop (length embeds) existing_message_ids) w1 of
                               (False, w2) \<Rightarrow> w2
                             | (True, w2) \<Rightarrow>
                                 (case save_message_ids server_id new_message_ids w2 of
                                    None \<Rightarrow> w2
                                  | Some w3 \<Rightarrow> w3))))))"

section \<open>Audit log (DiscordUtils.log_action, lines 438-469)\<close>

definition log_action :: "string \<Rightarrow> string \<Rightarrow> world \<Rightarrow> world" where
  "log_action server_id action w =
     (case get_server_config server_id w of
        None \<Rightarrow> w
      | Some cfg \<Rightarrow>
          (case log_channel_id cfg of
             None \<Rightarrow> w
           | Some ch \<Rightarrow>
               (case get_channel ch w of
                  None \<Rightarrow> w
                | Some send_messages \<Rightarrow>
                    if \<not> send_messages then w
                    else snd (send ch (LogMsg (time_now w) action) w))))"

section \<open>Periodic reconciliation (live_guild_check, lines 669-731)\<close>

text \<open>\<open>SELECT server_id FROM servers WHERE autoremove = 1\<close>\<close>

definition select_servers :: "world \<Rightarrow> string list" where
  "select_servers w = map fst (filter (\<lambda>r. autoremove (snd r)) (servers w))"

text \<open>\<open>SELECT name FROM members WHERE server_id = ? ORDER BY last_checked ASC LIMIT ?\<close>\<close>

definition due_rows :: "string \<Rightarrow> world \<Rightarrow> member list" where
  "due_rows server_id w = take CHECK_LIMIT (sort_key last_checked (server_rows server_id w))"

definition select_due :: "string \<Rightarrow> world \<Rightarrow> string list" where
  "select_due server_id w = map m_name (due_rows server_id w)"

text \<open>
  The body of the member loop (lines 693-712), on the counters \<open>total_checked\<close> and
  \<open>successful_checks\<close> and the state. No call of the body raises in this model (the
  database is taken to work, \<open>check_aqw_guild\<close> and \<open>log_action\<close> catch their own
  exceptions), so the handler of lines 714-718 has no branch here.
\<close>

definition throttle :: "nat \<Rightarrow> world \<Rightarrow> world" where
  "throttle total_checked w =
     (if total_checked mod 5 = 0 \<and> total_checked > 0
      then sleep (REQUEST_DELAY * 2 * 1000) w else w)"

definition apply_policy :: "string \<Rightarrow> config \<Rightarrow> string \<Rightarrow> pyval \<Rightarrow> world \<Rightarrow> world" where
  "apply_policy server_id cfg name in_guild w =
     (if \<not> truthy in_guild \<and> autoremove cfg
      then log_action server_id (''Auto-removed '' @ name) (remove_member server_id name w)
      else update_last_checked server_id name w)"

definition check_member ::
  "string \<Rightarrow> config \<Rightarrow> string \<Rightarrow> nat \<times> nat \<times> world \<Rightarrow> nat \<times> nat \<times> world" where
  "check_member server_id cfg name st =
     (case st of (total_checked, successful_checks, w) \<Rightarrow>
        (case check_aqw_guild name (guild_name cfg) (throttle total_checked w) of
           (in_guild, w1) \<Rightarrow>
             (total_checked + 1, successful_checks + 1,
              sleep (REQUEST_DELAY * 1000) (apply_policy server_id cfg name in_guild w1))))"

definition check_server :: "string \<Rightarrow> nat \<times> nat \<times> world \<Rightarrow> nat \<times> nat \<times> world" where
  "check_server server_id st =
     (case st of (total_checked, successful_checks, w) \<Rightarrow>
        (case get_server_config server_id w of
           None \<Rightarrow> st
         | Some cfg \<Rightarrow> fold (check_member server_id cfg) (select_due server_id w) st))"

text \<open>
  The sweep: the loop over the selected servers, then one call of \<open>update_list\<close> with the
  variable \<open>server_id\<close>, which after the loop holds the last server iterated.
\<close>

definition live_guild_check :: "world \<Rightarrow> world" where
  "live_guild_check w =
     (let server_ids = select_servers w in
      case fold check_server server_ids (0, 0, w) of
        (total_checked, successful_checks, w1) \<Rightarrow>
          if successful_checks > 0 \<and> server_ids \<noteq> []
          then update_list (last server_ids) w1 else w1)"

section \<open>Example states\<close>

definition world0 :: world where
  "world0 = \<lparr>servers = [], members = [], messages = [], clock = 100000, responses = [],
     requested = [], memo = [], channels = [], posted = [], next_id = 1, faults = [],
     ops = []\<rparr>"

definition cfg :: "nat \<Rightarrow> nat \<Rightarrow> bool \<Rightarrow> config" where
  "cfg list_ch log_ch auto =
     \<lparr>admin_role_id = Some ''1'', list_channel_id = Some list_ch,
      log_channel_id = Some log_ch, guild_name = ''Legion'', autoremove = auto\<rparr>"

definition row :: "string \<Rightarrow> string \<Rightarrow> nat \<Rightarrow> member" where
  "row server_id name t =
     \<lparr>m_server = server_id, m_name = name, m_normalized = lower name, m_status = [],
      last_checked = t\<rparr>"

definition in_legion :: http_outcome where
  "in_legion = Response 200 (Some ['' legion  ''])"

definition names45 :: "(string \<times> string) list" where
  "names45 = map (\<lambda>i. (replicate (i + 1) CHR ''a'', [])) [0..<45]"

text \<open>Two groups with automatic removal, one member each, both still in the guild.\<close>

definition two_groups :: world where
  "two_groups = world0\<lparr>servers := [(''A'', cfg 10 11 True), (''B'', cfg 20 21 True)],
     members := [row ''A'' ''Alice'' 5, row ''B'' ''Bob'' 7],
     channels := [(10, True), (11, True), (20, True), (21, True)],
     responses := [in_legion, in_legion]\<rparr>"

definition stale_page :: content where
  "stale_page = EmbedMsg \<lparr>embed_title = ''LEGION'', embed_footer = (1, 1), embed_fields = []\<rparr>"

text \<open>One group with one member, whose single page is the existing message 100.\<close>

definition one_page :: world where
  "one_page = world0\<lparr>servers := [(''A'', cfg 10 11 True)],
     members := [row ''A'' ''Alice'' 5],
     channels := [(10, True), (11, True)],
     messages := [\<lparr>r_server = ''A'', r_message = 100, embed_index = 0\<rparr>],
     posted := [(100, 10, stale_page)], next_id := 101\<rparr>"

text \<open>One group with 17 members; the member added first was checked last.\<close>

definition roster17 :: world where
  "roster17 = world0\<lparr>servers := [(''A'', cfg 10 11 True)],
     members := map (\<lambda>i. row ''A'' (replicate (Suc i) CHR ''a'') (50 - i)) [0..<17],
     channels := [(10, True), (11, True)]\<rparr>"

section \<open>Invariants of the state\<close>

text \<open>A message with this id exists in this channel.\<close>

definition present :: "nat \<Rightarrow> nat \<Rightarrow> world \<Rightarrow> bool" where
  "present ch msg_id w =
     (case map_of (posted w) msg_id of None \<Rightarrow> False | Some (c, _) \<Rightarrow> c = ch)"

text \<open>The primary key of table \<open>messages\<close>.\<close>

definition messages_key :: "world \<Rightarrow> bool" where
  "messages_key w = distinct (map (\<lambda>r. (r_server r, r_message r)) (messages w))"

text \<open>Every message id the state knows was issued by the platform before.\<close>

definition ids_issued :: "world \<Rightarrow> bool" where
  "ids_issued w \<longleftrightarrow>
     (\<forall>r \<in> set (messages w). r_message r < next_id w) \<and>
     (\<forall>i \<in> set (map fst (posted w)). i < next_id w)"

text \<open>Every row of table \<open>members\<close> carries the key \<open>add_member\<close> computes for its name.\<close>

definition normalized_ok :: "world \<Rightarrow> bool" where
  "normalized_ok w \<longleftrightarrow> (\<forall>m \<in> set (members w). m_normalized m = lower (m_name m))"

text \<open>The database and the channels are the same in two states.\<close>

definition same_db :: "world \<Rightarrow> world \<Rightarrow> bool" where
  "same_db w w' \<longleftrightarrow>
     servers w' = servers w \<and> members w' = members w \<and> messages w' = messages w \<and>
     channels w' = channels w"

text \<open>
  What holds before page \<open>k\<close> of a pass in which no platform call raises: the ids collected
  so far are distinct, issued, still posted in the channel, and none of them is a stored id
  of a later page.
\<close>

definition page_inv :: "nat \<Rightarrow> nat list \<Rightarrow> nat \<Rightarrow> nat list \<Rightarrow> world \<Rightarrow> bool" where
  "page_inv ch ex k new w \<longleftrightarrow>
     faults w = [] \<and> ids_issued w \<and> distinct ex \<and> (\<forall>i \<in> set ex. i < next_id w) \<and>
     distinct new \<and> (\<forall>i \<in> set new. i < next_id w) \<and>
     set new \<inter> set (drop k ex) = {} \<and> (\<forall>i \<in> set new. present ch i w)"

definition is_edit :: "op \<Rightarrow> bool" where
  "is_edit x = (case x of Edited _ _ \<Rightarrow> True | _ \<Rightarrow> False)"

text \<open>
  None of the coming platform calls raises an exception that ends a pass from inside the
  deletion loop: every error to come is \<open>NotFound\<close> or an \<open>HTTPException\<close> with a status other
  than 429.
\<close>

definition no_abort :: "world \<Rightarrow> bool" where
  "no_abort w \<longleftrightarrow>
     (\<forall>x \<in> set (faults w). x \<noteq> Some OtherException \<and> x \<noteq> Some (HTTPException 429))"

text \<open>
  One group with one member and three stored message ids, of which 101 was deleted by hand
  in the channel.
\<close>

definition stale_ids :: world where
  "stale_ids = world0\<lparr>servers := [(''A'', cfg 10 11 True)],
     members := [row ''A'' ''Alice'' 5],
     channels := [(10, True), (11, True)],
     messages := [\<lparr>r_server = ''A'', r_message = 100, embed_index = 0\<rparr>,
                  \<lparr>r_server = ''A'', r_message = 101, embed_index = 1\<rparr>,
                  \<lparr>r_server = ''A'', r_message = 102, embed_index = 2\<rparr>],
     posted := [(100, 10, stale_page), (102, 10, stale_page)], next_id := 103\<rparr>"

text \<open>One group without members and two stored message ids, of which 101 is gone.\<close>

definition empty_roster :: world where
  "empty_roster = world0\<lparr>servers := [(''A'', cfg 10 11 True)],
     channels := [(10, True), (11, True)],
     messages := [\<lparr>r_server = ''A'', r_message = 100, embed_index = 0\<rparr>,
                  \<lparr>r_server = ''A'', r_message = 101, embed_index = 1\<rparr>],
     posted := [(100, 10, stale_page)], next_id := 102\<rparr>"

text \<open>A name is not on the roster of a group.\<close>

definition absent :: "string \<Rightarrow> string \<Rightarrow> world \<Rightarrow> bool" where
  "absent server_id name w \<longleftrightarrow> name \<notin> fst ` set (get_members server_id w)"

text \<open>
  Group A with automatic removal and two members, of whom Alice shows another guild on her
  profile and Bob is still in the guild; group B without automatic removal, whose member
  Carol shows another guild too.
\<close>

definition sweep_groups :: world where
  "sweep_groups = world0\<lparr>servers := [(''A'', cfg 10 11 True), (''B'', cfg 20 21 False)],
     members := [row ''A'' ''Alice'' 5, row ''A'' ''Bob'' 7, row ''B'' ''Carol'' 9],
     channels := [(10, True), (11, True), (20, True), (21, True)],
     responses := [Response 200 (Some [''Nomads'']), in_legion,
                   Response 200 (Some [''Nomads''])]\<rparr>"

section \<open>Unfolding the definitions on concrete states\<close>

lemmas ex_defs = world0_def cfg_def row_def in_legion_def two_groups_def stale_page_def
  stale_ids_def empty_roster_def sweep_groups_def
  one_page_def

lemmas vc_defs = check_aqw_guild_def check_aqw_guild_body_def MAX_RETRIES_def http_get_def
  sleep_def RETRY_DELAY_def lower_def lower_char_def strip_def is_space_def

lemmas db_defs = get_server_config_def server_rows_def get_members_def member_exists_def
  add_member_def remove_member_def update_last_checked_def save_message_ids_def
  get_message_ids_def time_now_def

lemmas api_defs = next_fault_def get_channel_def fetch_message_def store_edit_def
  store_new_def store_delete_def edit_message_def send_def delete_message_def

lemmas render_defs = members_per_embed_def chunks_of_def column_size_of_def field_members_def
  field_lines_def create_embed_def create_list_embeds_def column_sizes_def
  MEMBERS_PER_FIELD_def MAX_FIELDS_PER_EMBED_def upper_def upper_char_def

lemmas sync_defs = pace_def try_page_def sync_page_def delete_handler_def
  delete_excess_message_def pages_of_def update_list_def log_action_def

lemmas sweep_defs = select_servers_def due_rows_def select_due_def throttle_def
  apply_policy_def check_member_def
  check_server_def live_guild_check_def CHECK_LIMIT_def REQUEST_DELAY_def

lemmas eval_defs = ex_defs vc_defs db_defs api_defs render_defs sync_defs sweep_defs
  enumerate_eq_zip upt_conv_Cons Let_def

section \<open>The verification client\<close>

text \<open>
  C9. \<open>MAX_RETRIES\<close> is 1. A call of \<open>check_aqw_guild\<close> that is not answered from the memo
  and whose first request gets status 429 sends that one request only (the outcomes of later
  requests are left untouched), sleeps once, and returns \<open>None\<close>, which the callers read as
  "not a member".
\<close>

theorem retry_cap_single_attempt:
  assumes "map_of (memo w) (name, g) = None"
    and "responses w = Response 429 body # rs"
  shows "fst (check_aqw_guild name g w) = PyNone
    \<and> \<not> truthy (fst (check_aqw_guild name g w))
    \<and> requested (snd (check_aqw_guild name g w)) = requested w @ [name]
    \<and> responses (snd (check_aqw_guild name g w)) = rs"
  using assms
  by (simp add: check_aqw_guild_def check_aqw_guild_body_def MAX_RETRIES_def http_get_def
      sleep_def)

theorem retry_cap_single_attempt_witness:
  "fst (check_aqw_guild ''Bob'' ''Legion'' (world0\<lparr>responses := [Response 429 None, in_legion]\<rparr>))
     = PyNone
   \<and> requested (snd (check_aqw_guild ''Bob'' ''Legion''
        (world0\<lparr>responses := [Response 429 None, in_legion]\<rparr>))) = [''Bob'']
   \<and> responses (snd (check_aqw_guild ''Bob'' ''Legion''
        (world0\<lparr>responses := [Response 429 None, in_legion]\<rparr>))) = [in_legion]"
  using retry_cap_single_attempt
          [of "world0\<lparr>responses := [Response 429 None, in_legion]\<rparr>" "''Bob''" "''Legion''"
              None "[in_legion]"]
  by (simp add: world0_def)

text \<open>
  C6. The function is annotated \<open>-> bool\<close>, and the claim says it always returns a boolean.
  With the single attempt rate limited the loop ends without a \<open>return\<close> and the result is
  \<open>None\<close>; with a profile that shows no guild label the result is the empty list of
  \<open>guild_element and ...\<close>. Neither is a boolean.
\<close>

theorem check_aqw_guild_returns_non_boolean:
  "fst (check_aqw_guild ''Bob'' ''Legion'' (world0\<lparr>responses := [Response 429 None]\<rparr>)) = PyNone
   \<and> \<not> is_bool (fst (check_aqw_guild ''Bob'' ''Legion''
          (world0\<lparr>responses := [Response 429 None]\<rparr>)))
   \<and> fst (check_aqw_guild ''Bob'' ''Legion'' (world0\<lparr>responses := [Response 200 (Some [])]\<rparr>))
       = PyEmptyList
   \<and> \<not> is_bool (fst (check_aqw_guild ''Bob'' ''Legion''
          (world0\<lparr>responses := [Response 200 (Some [])]\<rparr>)))"
  by (simp add: ex_defs vc_defs)

section \<open>Rendering\<close>

text \<open>
  C4. The claim gives a full page of 45 members three columns of 15. The code computes the
  column size as \<open>len(chunk) // 3 + 1\<close>, which is 16 for 45 members: the columns hold 16, 16
  and 13 members, against \<open>MEMBERS_PER_FIELD = 15\<close>. A page of 3 members gets the columns
  2 and 1 and no third column.
\<close>

theorem full_page_columns_16_16_13:
  "map column_sizes (create_list_embeds ''Legion'' names45) = [[16, 16, 13]]
   \<and> map column_sizes (create_list_embeds ''Legion'' (take 3 names45)) = [[2, 1]]"
  by code_simp

section \<open>Display synchronisation\<close>

text \<open>
  C2. The page is the existing message 100; fetching it succeeds and the edit is refused
  with status 429. The handler of line 405 is entered and its first statement, which reads
  \<open>e.retry_after\<close>, raises: the pass ends there. The page is not tried again (both entries
  of \<open>faults\<close> are used, one by the fetch and one by the edit, every later call would go
  through, and no operation took effect), the pass has not waited (the clock stands), the
  message keeps its old content, which is not the page rendered, and nothing is saved: the
  table \<open>messages\<close> is as before. With three stored ids for one page the two surplus
  messages are not deleted either.
\<close>

theorem rate_limited_page_ends_pass:
  "ops (update_list ''A'' (one_page\<lparr>faults := [None, Some (HTTPException 429)]\<rparr>)) = []
   \<and> faults (update_list ''A'' (one_page\<lparr>faults := [None, Some (HTTPException 429)]\<rparr>)) = []
   \<and> posted (update_list ''A'' (one_page\<lparr>faults := [None, Some (HTTPException 429)]\<rparr>))
       = [(100, 10, stale_page)]
   \<and> map EmbedMsg (pages_of ''A'' one_page) \<noteq> [stale_page]
   \<and> length (pages_of ''A'' one_page) = 1
   \<and> clock (update_list ''A'' (one_page\<lparr>faults := [None, Some (HTTPException 429)]\<rparr>))
       = clock one_page
   \<and> messages (update_list ''A'' (one_page\<lparr>faults := [None, Some (HTTPException 429)]\<rparr>))
       = messages one_page
   \<and> ops (update_list ''A'' (stale_ids\<lparr>faults := [None, Some (HTTPException 429)]\<rparr>)) = []
   \<and> get_message_ids ''A''
        (update_list ''A'' (stale_ids\<lparr>faults := [None, Some (HTTPException 429)]\<rparr>))
       = [100, 101, 102]"
  by (simp add: eval_defs)

section \<open>Periodic reconciliation\<close>

text \<open>
  C1. Both groups are selected and one member of each is checked. After the loop
  \<open>update_list\<close> is called once, for the last group: the only message posted is in channel
  20 of group B, and group A, which has one page to show, has no message and no stored id.
\<close>

theorem sweep_synchronises_last_group_only:
  "select_servers two_groups = [''A'', ''B'']
   \<and> requested (live_guild_check two_groups) = [''Alice'', ''Bob'']
   \<and> map (\<lambda>e. fst (snd e)) (posted (live_guild_check two_groups)) = [20]
   \<and> get_message_ids ''B'' (live_guild_check two_groups) = [1]
   \<and> get_message_ids ''A'' (live_guild_check two_groups) = []
   \<and> length (pages_of ''A'' (live_guild_check two_groups)) = 1"
  by (simp add: eval_defs)

section \<open>Member selection\<close>

lemma due_rows_split:
  "mset (due_rows sid w) + mset (drop CHECK_LIMIT (sort_key last_checked (server_rows sid w)))
     = mset (server_rows sid w)"
proof -
  have "mset (take CHECK_LIMIT (sort_key last_checked (server_rows sid w)))
        + mset (drop CHECK_LIMIT (sort_key last_checked (server_rows sid w)))
      = mset (sort_key last_checked (server_rows sid w))"
    by (simp only: union_code append_take_drop_id)
  then show ?thesis by (simp add: due_rows_def)
qed

lemma take_le_drop:
  assumes "sorted (map f xs)" "x \<in> set (take n xs)" "y \<in> set (drop n xs)"
  shows "f x \<le> f y"
proof -
  have "sorted (map f (take n xs) @ map f (drop n xs))"
    using assms(1) by (simp flip: map_append)
  then show ?thesis using assms(2,3) by (auto simp: sorted_append)
qed

text \<open>
  C8. For every group, the selection of the sweep returns \<open>min(CHECK_LIMIT, n)\<close> of the
  group's \<open>n\<close> rows, in ascending order of \<open>last_checked\<close>; the rows returned are rows of
  the group, and every row of the group that is left out was checked no earlier than any
  row returned. The names are handed to the member loop in that order.
\<close>

theorem selection_oldest_first:
  "length (due_rows sid w) = min CHECK_LIMIT (length (server_rows sid w))
   \<and> sorted (map last_checked (due_rows sid w))
   \<and> mset (due_rows sid w) \<subseteq># mset (server_rows sid w)
   \<and> (\<forall>x \<in> set (due_rows sid w).
        \<forall>y \<in># mset (server_rows sid w) - mset (due_rows sid w).
          last_checked x \<le> last_checked y)
   \<and> select_due sid w = map m_name (due_rows sid w)"
proof -
  let ?xs = "sort_key last_checked (server_rows sid w)"
  have len: "length (due_rows sid w) = min CHECK_LIMIT (length (server_rows sid w))"
    by (simp add: due_rows_def min.commute)
  have srt: "sorted (map last_checked ?xs)" by simp
  have s1: "sorted (map last_checked (due_rows sid w))"
    unfolding due_rows_def using srt
    by (simp add: sorted_wrt_take take_map[symmetric] del: sorted_sort_key)
  have sub: "mset (due_rows sid w) \<subseteq># mset (server_rows sid w)"
    using due_rows_split[of sid w] by (metis mset_subset_eq_add_left)
  have rest: "mset (server_rows sid w) - mset (due_rows sid w) = mset (drop CHECK_LIMIT ?xs)"
    using due_rows_split[of sid w] by (metis add_diff_cancel_left')
  have le: "\<forall>x \<in> set (due_rows sid w).
        \<forall>y \<in># mset (server_rows sid w) - mset (due_rows sid w).
          last_checked x \<le> last_checked y"
    unfolding rest using take_le_drop[OF srt] by (auto simp: due_rows_def)
  show ?thesis using len s1 sub le by (simp add: select_due_def)
qed

theorem selection_oldest_first_witness:
  "length (server_rows ''A'' roster17) = 17
   \<and> length (due_rows ''A'' roster17) = 15
   \<and> map last_checked (due_rows ''A'' roster17)
       = [34, 35, 36, 37, 38, 39, 40, 41, 42, 43, 44, 45, 46, 47, 48]
   \<and> row ''A'' ''aa'' 49 \<in># mset (server_rows ''A'' roster17) - mset (due_rows ''A'' roster17)
   \<and> row ''A'' ''aaa'' 48 \<in> set (due_rows ''A'' roster17)
   \<and> last_checked (row ''A'' ''aaa'' 48) \<le> last_checked (row ''A'' ''aa'' 49)"
  using selection_oldest_first [of "''A''" roster17]
  by (simp add: roster17_def eval_defs)

section \<open>The platform calls\<close>

lemma map_of_edit:
  "map_of (map (\<lambda>(i, c, x). if i = m then (i, c, v) else (i, c, x)) xs) j
     = map_option (\<lambda>(c, x). if j = m then (c, v) else (c, x)) (map_of xs j)"
  by (induction xs) (auto simp: case_prod_beta)

lemma map_of_delete:
  "map_of (filter (\<lambda>e. fst e \<noteq> m) xs) j = (if j = m then None else map_of xs j)"
  by (induction xs) auto

lemma map_of_new:
  "map_of (xs @ [(n, v)]) j
     = (case map_of xs j of Some y \<Rightarrow> Some y | None \<Rightarrow> if j = n then Some v else None)"
  by (induction xs) auto

lemma present_sleep [simp]: "present ch j (sleep d w) = present ch j w"
  by (simp add: present_def sleep_def)

lemma present_pace [simp]: "present ch j (pace idx w) = present ch j w"
  by (simp add: pace_def)

lemma present_store_edit [simp]: "present ch j (store_edit m v w) = present ch j w"
  by (auto simp: present_def store_edit_def map_of_edit split: option.splits)

lemma present_store_delete [simp]:
  "present ch j (store_delete m w) = (j \<noteq> m \<and> present ch j w)"
  by (simp add: present_def store_delete_def map_of_delete)

lemma posted_ids_simps [simp]:
  "map fst (posted (sleep d w)) = map fst (posted w)"
  "map fst (posted (pace idx w)) = map fst (posted w)"
  "map fst (posted (store_edit m v w)) = map fst (posted w)"
  "map fst (posted (store_new c v w)) = map fst (posted w) @ [next_id w]"
  "map fst (posted (store_delete m w)) = filter (\<lambda>i. i \<noteq> m) (map fst (posted w))"
  by (auto simp: sleep_def pace_def store_edit_def store_new_def store_delete_def filter_map
      comp_def)

lemma issued_fresh: "ids_issued w \<Longrightarrow> map_of (posted w) (next_id w) = None"
  by (auto simp: ids_issued_def map_of_eq_None_iff)

lemma present_store_new_old: "present ch j w \<Longrightarrow> present ch j (store_new c v w)"
  by (auto simp: present_def store_new_def map_add_def split: option.splits)

lemma present_store_new_fresh: "ids_issued w \<Longrightarrow> present ch (next_id w) (store_new ch v w)"
  by (simp add: present_def store_new_def map_add_def issued_fresh)

lemma present_store_new_iff:
  "ids_issued w \<Longrightarrow> present ch j (store_new c v w) = (present ch j w \<or> (j = next_id w \<and> c = ch))"
  using issued_fresh[of w]
  by (auto simp: present_def store_new_def map_add_def split: option.splits)

lemma present_issued: "ids_issued w \<Longrightarrow> present ch j w \<Longrightarrow> j < next_id w"
  by (force simp: present_def ids_issued_def split: option.splits dest!: map_of_SomeD)

lemma ids_issued_sleep [simp]: "ids_issued (sleep d w) = ids_issued w"
  by (simp add: ids_issued_def sleep_def)

lemma ids_issued_pace [simp]: "ids_issued (pace idx w) = ids_issued w"
  by (simp add: pace_def)

lemma ids_issued_store_edit [simp]: "ids_issued (store_edit m v w) = ids_issued w"
  by (simp add: ids_issued_def del: set_map) (simp add: store_edit_def)

lemma ids_issued_store_delete: "ids_issued w \<Longrightarrow> ids_issued (store_delete m w)"
  by (auto simp: ids_issued_def store_delete_def)

lemma ids_issued_store_new: "ids_issued w \<Longrightarrow> ids_issued (store_new c v w)"
  by (simp add: ids_issued_def del: set_map) (auto simp: store_new_def less_Suc_eq)

lemma same_db_refl [simp]: "same_db w w"
  by (simp add: same_db_def)

lemma same_db_trans: "same_db w w1 \<Longrightarrow> same_db w1 w2 \<Longrightarrow> same_db w w2"
  by (simp add: same_db_def)

lemma same_db_sleep [simp]: "same_db w (sleep d w)"
  by (simp add: same_db_def sleep_def)

lemma same_db_pace [simp]: "same_db w (pace idx w)"
  by (simp add: pace_def)

lemma same_db_store [simp]:
  "same_db w (store_edit m v w)" "same_db w (store_new c v w)" "same_db w (store_delete m w)"
  by (simp_all add: same_db_def store_edit_def store_new_def store_delete_def)

lemma same_db_reads:
  assumes "same_db w w'"
  shows "get_server_config sid w' = get_server_config sid w"
    and "get_members sid w' = get_members sid w"
    and "get_message_ids sid w' = get_message_ids sid w"
    and "get_channel ch w' = get_channel ch w"
    and "pages_of sid w' = pages_of sid w"
  using assms
  by (simp_all add: same_db_def get_server_config_def get_members_def server_rows_def
      get_message_ids_def get_channel_def pages_of_def cong: option.case_cong)

lemma faults_simps [simp]:
  "faults (sleep d w) = faults w" "faults (pace idx w) = faults w"
  "faults (store_edit m v w) = faults w" "faults (store_new c v w) = faults w"
  "faults (store_delete m w) = faults w"
  by (simp_all add: sleep_def pace_def store_edit_def store_new_def store_delete_def)

lemma next_id_simps [simp]:
  "next_id (sleep d w) = next_id w" "next_id (pace idx w) = next_id w"
  "next_id (store_edit m v w) = next_id w" "next_id (store_new c v w) = Suc (next_id w)"
  "next_id (store_delete m w) = next_id w"
  by (simp_all add: sleep_def pace_def store_edit_def store_new_def store_delete_def)

lemma ops_simps [simp]:
  "ops (sleep d w) = ops w" "ops (pace idx w) = ops w"
  "ops (store_edit m v w) = ops w @ [Edited m v]"
  "ops (store_new c v w) = ops w @ [Sent c (next_id w) v]"
  "ops (store_delete m w) = ops w @ [Deleted m]"
  by (simp_all add: sleep_def pace_def store_edit_def store_new_def store_delete_def)

section \<open>Calls that raise nothing\<close>

lemma next_fault_nil: "faults w = [] \<Longrightarrow> next_fault w = (None, w)"
  by (simp add: next_fault_def)

lemma fetch_message_nil:
  "faults w = [] \<Longrightarrow>
   fetch_message ch i w = (if present ch i w then Inr i else Inl NotFound, w)"
  by (auto simp: fetch_message_def next_fault_nil present_def split: option.splits)

lemma edit_message_nil:
  "faults w = [] \<Longrightarrow> present ch i w \<Longrightarrow> edit_message i v w = (Inr i, store_edit i v w)"
  by (auto simp: edit_message_def next_fault_nil present_def split: option.splits)

lemma send_nil: "faults w = [] \<Longrightarrow> send ch v w = (Inr (next_id w), store_new ch v w)"
  by (simp add: send_def next_fault_nil)

lemma delete_message_nil:
  "faults w = [] \<Longrightarrow> present ch i w \<Longrightarrow> delete_message i w = (Inr (), store_delete i w)"
  by (auto simp: delete_message_def next_fault_nil present_def split: option.splits)

lemma sync_page_edit:
  assumes "faults w = []" "idx < length ex" "present ch (ex ! idx) w"
  shows "sync_page ch ex idx e new w
           = (Some (new @ [ex ! idx]), store_edit (ex ! idx) (EmbedMsg e) (pace idx w))"
  using assms
  by (simp add: sync_page_def try_page_def fetch_message_nil edit_message_nil[where ch = ch])

lemma sync_page_create:
  assumes "faults w = []" "\<not> (idx < length ex \<and> present ch (ex ! idx) w)"
  shows "sync_page ch ex idx e new w
           = (Some (new @ [next_id w]), store_new ch (EmbedMsg e) (pace idx w))"
  using assms
  by (auto simp: sync_page_def try_page_def fetch_message_nil send_nil)

lemma delete_excess_message_nil:
  assumes "faults w = []"
  shows "delete_excess_message ch i w = (True, if present ch i w then store_delete i w else w)"
  using assms
  by (simp add: delete_excess_message_def fetch_message_nil delete_message_nil[where ch = ch]
      delete_handler_def)


section \<open>The page loop when nothing is raised\<close>

lemma page_inv_step:
  assumes "page_inv ch ex k new w"
  shows "\<exists>new1 w1. sync_page ch ex k e new w = (Some new1, w1)
           \<and> length new1 = Suc (length new) \<and> page_inv ch ex (Suc k) new1 w1 \<and> same_db w w1
           \<and> next_id w \<le> next_id w1"
proof (cases "k < length ex \<and> present ch (ex ! k) w")
  case True
  from assms have f: "faults w = []" and iss: "ids_issued w" and dex: "distinct ex"
    and exlt: "\<forall>i \<in> set ex. i < next_id w" and dn: "distinct new"
    and nlt: "\<forall>i \<in> set new. i < next_id w" and disj: "set new \<inter> set (drop k ex) = {}"
    and pres: "\<forall>i \<in> set new. present ch i w"
    by (simp_all add: page_inv_def)
  let ?w1 = "store_edit (ex ! k) (EmbedMsg e) (pace k w)"
  have eq: "sync_page ch ex k e new w = (Some (new @ [ex ! k]), ?w1)"
    using sync_page_edit[OF f] True by simp
  have dr: "drop k ex = ex ! k # drop (Suc k) ex"
    using True by (simp add: Cons_nth_drop_Suc)
  have notin: "ex ! k \<notin> set new" using disj dr by auto
  have notlater: "ex ! k \<notin> set (drop (Suc k) ex)"
    using dex dr by (metis distinct.simps(2) distinct_drop)
  have sub: "set new \<inter> set (drop (Suc k) ex) = {}" using disj dr by auto
  have "page_inv ch ex (Suc k) (new @ [ex ! k]) ?w1"
    using f iss dex exlt dn nlt pres notin notlater sub True
    by (auto simp: page_inv_def)
  moreover have "same_db w ?w1"
    by (rule same_db_trans[of _ "pace k w"]) simp_all
  ultimately show ?thesis using eq by simp
next
  case False
  from assms have f: "faults w = []" and iss: "ids_issued w" and dex: "distinct ex"
    and exlt: "\<forall>i \<in> set ex. i < next_id w" and dn: "distinct new"
    and nlt: "\<forall>i \<in> set new. i < next_id w" and disj: "set new \<inter> set (drop k ex) = {}"
    and pres: "\<forall>i \<in> set new. present ch i w"
    by (simp_all add: page_inv_def)
  let ?w1 = "store_new ch (EmbedMsg e) (pace k w)"
  have eq: "sync_page ch ex k e new w = (Some (new @ [next_id w]), ?w1)"
    using sync_page_create[OF f False] by simp
  have "set (drop (Suc k) ex) \<subseteq> set (drop k ex)"
    by (rule set_drop_subset_set_drop) simp
  then have sub: "set new \<inter> set (drop (Suc k) ex) = {}"
    using disj by auto
  have notex: "next_id w \<notin> set (drop (Suc k) ex)"
    using exlt by (auto dest: in_set_dropD)
  have fresh: "present ch (next_id w) ?w1"
    using present_store_new_fresh[of "pace k w" ch] iss by simp
  have old: "\<forall>i \<in> set new. present ch i ?w1"
    using pres by (auto intro: present_store_new_old)
  have "page_inv ch ex (Suc k) (new @ [next_id w]) ?w1"
    using f iss dex exlt dn nlt sub notex fresh old
    by (auto simp: page_inv_def ids_issued_store_new less_Suc_eq)
  moreover have "same_db w ?w1"
    by (rule same_db_trans[of _ "pace k w"]) simp_all
  ultimately show ?thesis using eq by simp
qed

lemma sync_pages_nil:
  assumes "page_inv ch ex k new w"
  shows "\<exists>new' w'. sync_pages ch ex (enumerate k es) new w = (Some new', w')
           \<and> length new' = length new + length es
           \<and> page_inv ch ex (k + length es) new' w' \<and> same_db w w'
           \<and> next_id w \<le> next_id w'"
  using assms
proof (induction es arbitrary: k new w)
  case Nil
  then show ?case by simp
next
  case (Cons e es)
  from page_inv_step[OF Cons.prems, of e] obtain new1 w1 where
    s: "sync_page ch ex k e new w = (Some new1, w1)" and l: "length new1 = Suc (length new)"
    and i: "page_inv ch ex (Suc k) new1 w1" and d: "same_db w w1" and n: "next_id w \<le> next_id w1"
    by blast
  from Cons.IH[OF i] obtain new' w' where
    r: "sync_pages ch ex (enumerate (Suc k) es) new1 w1 = (Some new', w')"
    and l': "length new' = length new1 + length es"
    and i': "page_inv ch ex (Suc k + length es) new' w'" and d': "same_db w1 w'"
    and n': "next_id w1 \<le> next_id w'"
    by blast
  show ?case
    using s r l l' i' n n' same_db_trans[OF d d'] by simp
qed


lemma sync_pages_all_edits:
  assumes "faults w = []" "k + length es \<le> length ex" "\<forall>i \<in> set ex. present ch i w"
  shows "\<exists>w'. sync_pages ch ex (enumerate k es) new w
                  = (Some (new @ take (length es) (drop k ex)), w')
           \<and> faults w' = [] \<and> same_db w w' \<and> next_id w' = next_id w
           \<and> map fst (posted w') = map fst (posted w)
           \<and> (\<forall>j. present ch j w' = present ch j w)
           \<and> ops w' = ops w @ map (\<lambda>(i, e). Edited (ex ! i) (EmbedMsg e)) (enumerate k es)"
  using assms
proof (induction es arbitrary: k new w)
  case Nil
  then show ?case by simp
next
  case (Cons e es)
  let ?w1 = "store_edit (ex ! k) (EmbedMsg e) (pace k w)"
  have k: "k < length ex" using Cons.prems(2) by simp
  then have p: "present ch (ex ! k) w" using Cons.prems(3) by simp
  have s: "sync_page ch ex k e new w = (Some (new @ [ex ! k]), ?w1)"
    using sync_page_edit[OF Cons.prems(1) k p] .
  have "\<exists>w'. sync_pages ch ex (enumerate (Suc k) es) (new @ [ex ! k]) ?w1
                  = (Some ((new @ [ex ! k]) @ take (length es) (drop (Suc k) ex)), w')
           \<and> faults w' = [] \<and> same_db ?w1 w' \<and> next_id w' = next_id ?w1
           \<and> map fst (posted w') = map fst (posted ?w1)
           \<and> (\<forall>j. present ch j w' = present ch j ?w1)
           \<and> ops w' = ops ?w1 @ map (\<lambda>(i, e). Edited (ex ! i) (EmbedMsg e)) (enumerate (Suc k) es)"
    using Cons.prems by (intro Cons.IH) simp_all
  then obtain w' where
    r: "sync_pages ch ex (enumerate (Suc k) es) (new @ [ex ! k]) ?w1
          = (Some ((new @ [ex ! k]) @ take (length es) (drop (Suc k) ex)), w')"
    and f: "faults w' = []" and d: "same_db ?w1 w'" and n: "next_id w' = next_id ?w1"
    and m: "map fst (posted w') = map fst (posted ?w1)"
    and pr: "\<forall>j. present ch j w' = present ch j ?w1"
    and o: "ops w' = ops ?w1 @ map (\<lambda>(i, e). Edited (ex ! i) (EmbedMsg e)) (enumerate (Suc k) es)"
    by blast
  have t: "take (length (e # es)) (drop k ex) = ex ! k # take (length es) (drop (Suc k) ex)"
    using k by (simp add: Cons_nth_drop_Suc[symmetric])
  have d0: "same_db w ?w1" by (rule same_db_trans[of _ "pace k w"]) simp_all
  show ?case
    using s r f n m pr o t same_db_trans[OF d0 d] by simp
qed

section \<open>The deletion loop\<close>

lemma present_unique: "present c i w \<Longrightarrow> present ch i w \<Longrightarrow> c = ch"
  by (auto simp: present_def split: option.splits)

lemma delete_excess_nil:
  assumes "faults w = []"
  shows "\<exists>w'. delete_excess ch ds w = (True, w') \<and> faults w' = [] \<and> same_db w w'
           \<and> next_id w' = next_id w
           \<and> (\<forall>c j. present c j w' = (present c j w \<and> \<not> (c = ch \<and> j \<in> set ds)))
           \<and> (ids_issued w \<longrightarrow> ids_issued w')"
  using assms
proof (induction ds arbitrary: w)
  case Nil
  then show ?case by simp
next
  case (Cons i ds)
  let ?w1 = "if present ch i w then store_delete i w else w"
  have s: "delete_excess_message ch i w = (True, ?w1)"
    using delete_excess_message_nil[OF Cons.prems] .
  have f1: "faults ?w1 = []" using Cons.prems by simp
  from Cons.IH[OF f1] obtain w' where
    r: "delete_excess ch ds ?w1 = (True, w')" and f: "faults w' = []" and d: "same_db ?w1 w'"
    and n: "next_id w' = next_id ?w1"
    and p: "\<forall>c j. present c j w' = (present c j ?w1 \<and> \<not> (c = ch \<and> j \<in> set ds))"
    and iss: "ids_issued ?w1 \<longrightarrow> ids_issued w'"
    by blast
  have d0: "same_db w ?w1" by simp
  have p1: "\<forall>c j. present c j ?w1 = (present c j w \<and> \<not> (c = ch \<and> j = i))"
    by (auto dest: present_unique)
  have i1: "ids_issued w \<longrightarrow> ids_issued ?w1" by (simp add: ids_issued_store_delete)
  show ?case
    using s r f n p p1 iss i1 same_db_trans[OF d0 d] by auto
qed

lemma next_fault_cases:
  "next_fault w = (x, w') \<Longrightarrow> same_db w w' \<and> set (faults w') \<subseteq> set (faults w)
     \<and> (x = None \<or> x \<in> set (faults w))"
  by (auto simp: next_fault_def same_db_def split: list.splits)

lemma fetch_message_cases:
  assumes "fetch_message ch i w = (r, w1)" "no_abort w"
  shows "same_db w w1 \<and> no_abort w1 \<and> r \<noteq> Inl OtherException \<and> r \<noteq> Inl (HTTPException 429)"
proof -
  obtain x w0 where nf: "next_fault w = (x, w0)" by (cases "next_fault w")
  from next_fault_cases[OF nf] assms(2)
  have "same_db w w0" "no_abort w0" "x \<noteq> Some OtherException" "x \<noteq> Some (HTTPException 429)"
    by (auto simp: no_abort_def)
  then show ?thesis
    using assms(1) nf
    by (auto simp: fetch_message_def split: option.splits if_splits)
qed

lemma delete_message_cases:
  assumes "delete_message i w = (r, w1)" "no_abort w"
  shows "same_db w w1 \<and> no_abort w1 \<and> r \<noteq> Inl OtherException \<and> r \<noteq> Inl (HTTPException 429)"
proof -
  obtain x w0 where nf: "next_fault w = (x, w0)" by (cases "next_fault w")
  from next_fault_cases[OF nf] assms(2)
  have d: "same_db w w0" and f: "no_abort w0"
    and x: "x \<noteq> Some OtherException" "x \<noteq> Some (HTTPException 429)"
    by (auto simp: no_abort_def)
  have "same_db w (store_delete i w0)"
    by (rule same_db_trans[OF d]) simp
  moreover have "no_abort (store_delete i w0)" using f by (simp add: no_abort_def)
  ultimately show ?thesis
    using assms(1) nf d f x
    by (auto simp: delete_message_def split: option.splits)
qed

lemma delete_handler_cases:
  assumes "x \<noteq> OtherException" "x \<noteq> HTTPException 429"
  shows "delete_handler x w = (True, w)"
  using assms by (cases x) (simp_all add: delete_handler_def)

lemma delete_excess_message_no_abort:
  assumes "no_abort w"
  shows "\<exists>w'. delete_excess_message ch i w = (True, w') \<and> same_db w w' \<and> no_abort w'"
proof -
  obtain r w1 where fe: "fetch_message ch i w = (r, w1)" by (cases "fetch_message ch i w")
  from fetch_message_cases[OF fe assms]
  have d1: "same_db w w1" and f1: "no_abort w1"
    and r: "r \<noteq> Inl OtherException" "r \<noteq> Inl (HTTPException 429)" by auto
  show ?thesis
  proof (cases r)
    case (Inl x)
    with r have "x \<noteq> OtherException" "x \<noteq> HTTPException 429" by simp_all
    from delete_handler_cases[OF this, of w1]
    show ?thesis
      using fe Inl f1 d1 by (simp add: delete_excess_message_def)
  next
    case (Inr msg)
    obtain r2 w2 where de: "delete_message msg w1 = (r2, w2)"
      by (cases "delete_message msg w1")
    from delete_message_cases[OF de f1]
    have d2: "same_db w1 w2" and f2: "no_abort w2"
      and r2: "r2 \<noteq> Inl OtherException" "r2 \<noteq> Inl (HTTPException 429)" by auto
    have d12: "same_db w w2" using same_db_trans[OF d1 d2] .
    show ?thesis
    proof (cases r2)
      case (Inl x)
      with r2 have "x \<noteq> OtherException" "x \<noteq> HTTPException 429" by simp_all
      from delete_handler_cases[OF this, of w2]
      show ?thesis
        using fe \<open>r = Inr msg\<close> de Inl f2 d12
        by (simp add: delete_excess_message_def)
    next
      case (Inr u)
      then show ?thesis
        using fe \<open>r = Inr msg\<close> de f2 d12 by (simp add: delete_excess_message_def)
    qed
  qed
qed

lemma delete_excess_no_abort:
  assumes "no_abort w"
  shows "\<exists>w'. delete_excess ch ds w = (True, w') \<and> same_db w w' \<and> no_abort w'"
  using assms
proof (induction ds arbitrary: w)
  case Nil
  then show ?case by simp
next
  case (Cons i ds)
  from delete_excess_message_no_abort[OF Cons.prems, of ch i] obtain w1 where
    s: "delete_excess_message ch i w = (True, w1)" and d: "same_db w w1"
    and f: "no_abort w1" by blast
  from Cons.IH[OF f] obtain w' where
    r: "delete_excess ch ds w1 = (True, w')" and d': "same_db w1 w'"
    and f': "no_abort w'" by blast
  show ?case using s r f' same_db_trans[OF d d'] by simp
qed

section \<open>Saving and reading the message ids\<close>

lemma sorted_enumerate_index:
  "sort_key embed_index
     (map (\<lambda>(idx, msg_id). \<lparr>r_server = sid, r_message = msg_id, embed_index = idx\<rparr>)
          (enumerate n ids))
   = map (\<lambda>(idx, msg_id). \<lparr>r_server = sid, r_message = msg_id, embed_index = idx\<rparr>)
          (enumerate n ids)"
proof (rule sort_key_id_if_sorted)
  have "embed_index \<circ> (\<lambda>(idx, msg_id). \<lparr>r_server = sid, r_message = msg_id, embed_index = idx\<rparr>)
          = fst"
    by (auto simp: fun_eq_iff)
  then show "sorted (map embed_index
          (map (\<lambda>(idx, msg_id). \<lparr>r_server = sid, r_message = msg_id, embed_index = idx\<rparr>)
               (enumerate n ids)))"
    by (simp only: map_map map_fst_enumerate sorted_upt)
qed

lemma save_message_ids_get:
  assumes "save_message_ids sid ids w = Some w'"
  shows "get_message_ids sid w' = ids"
proof -
  let ?mk = "\<lambda>(idx, msg_id). \<lparr>r_server = sid, r_message = msg_id, embed_index = idx\<rparr>"
  from assms have m: "messages w' = filter (\<lambda>r. r_server r \<noteq> sid) (messages w)
                         @ map ?mk (enumerate 0 ids)"
    by (auto simp: save_message_ids_def split: if_splits)
  have f1: "filter (\<lambda>r. r_server r = sid) (filter (\<lambda>r. r_server r \<noteq> sid) (messages w)) = []"
    by (simp add: filter_empty_conv)
  have f2: "filter (\<lambda>r. r_server r = sid) (map ?mk (enumerate 0 ids)) = map ?mk (enumerate 0 ids)"
    by (simp add: filter_id_conv case_prod_beta)
  have c: "r_message \<circ> ?mk = snd" by (auto simp: fun_eq_iff)
  have "map r_message (map ?mk (enumerate 0 ids)) = ids"
    by (simp only: map_map c map_snd_enumerate)
  then show ?thesis
    unfolding get_message_ids_def m filter_append f1 f2 append_Nil sorted_enumerate_index
    by simp
qed

lemma save_message_ids_frame:
  assumes "save_message_ids sid ids w = Some w'"
  shows "servers w' = servers w" "members w' = members w" "channels w' = channels w"
    "posted w' = posted w" "ops w' = ops w" "faults w' = faults w" "next_id w' = next_id w"
  using assms by (auto simp: save_message_ids_def split: if_splits)

lemma save_message_ids_distinct:
  "distinct ids \<Longrightarrow> \<exists>w'. save_message_ids sid ids w = Some w'"
  by (simp add: save_message_ids_def)


lemma save_message_ids_issued:
  assumes "save_message_ids sid ids w = Some w'" "ids_issued w" "\<forall>i \<in> set ids. i < next_id w"
  shows "ids_issued w'"
proof -
  from assms(1) have m: "messages w' = filter (\<lambda>r. r_server r \<noteq> sid) (messages w)
      @ map (\<lambda>(idx, msg_id). \<lparr>r_server = sid, r_message = msg_id, embed_index = idx\<rparr>)
            (enumerate 0 ids)"
    and p: "posted w' = posted w" and n: "next_id w' = next_id w"
    by (auto simp: save_message_ids_def split: if_splits)
  show ?thesis
    using assms(2,3) unfolding ids_issued_def m p n
    by (auto simp: in_set_enumerate_eq)
qed

lemma stored_issued: "ids_issued w \<Longrightarrow> i \<in> set (get_message_ids sid w) \<Longrightarrow> i < next_id w"
  by (auto simp: ids_issued_def get_message_ids_def)

lemma stored_distinct:
  assumes "messages_key w"
  shows "distinct (get_message_ids sid w)"
proof -
  let ?rows = "filter (\<lambda>r. r_server r = sid) (messages w)"
  have "distinct (map (\<lambda>r. (r_server r, r_message r)) ?rows)"
    using assms by (simp add: messages_key_def distinct_map_filter)
  moreover have "map (\<lambda>r. (r_server r, r_message r)) ?rows = map (Pair sid) (map r_message ?rows)"
    by simp
  ultimately have "distinct (map (Pair sid) (map r_message ?rows))" by simp
  then have d: "distinct (map r_message ?rows)"
    by (auto simp: distinct_map inj_on_def)
  have "mset (map r_message (sort_key embed_index ?rows)) = mset (map r_message ?rows)"
    by simp
  then show ?thesis
    unfolding get_message_ids_def using d by (metis mset_eq_imp_distinct_iff)
qed

lemma pages_of_cong:
  "servers w' = servers w \<Longrightarrow> members w' = members w \<Longrightarrow> pages_of sid w' = pages_of sid w"
  by (simp add: pages_of_def get_server_config_def get_members_def server_rows_def
      cong: option.case_cong)

lemma present_cong: "posted w' = posted w \<Longrightarrow> present ch i w' = present ch i w"
  by (simp add: present_def)

section \<open>A whole pass\<close>

lemma update_list_unfold:
  assumes "get_server_config sid w = Some cf" "list_channel_id cf = Some ch"
    "get_channel ch w = Some b"
  shows "update_list sid w =
    (case sync_pages ch (get_message_ids sid w) (enumerate 0 (pages_of sid w)) [] w of
       (None, w1) \<Rightarrow> w1
     | (Some new, w1) \<Rightarrow>
         (case delete_excess ch (drop (length (pages_of sid w)) (get_message_ids sid w)) w1 of
            (False, w2) \<Rightarrow> w2
          | (True, w2) \<Rightarrow>
              (case save_message_ids sid new w2 of None \<Rightarrow> w2 | Some w3 \<Rightarrow> w3)))"
proof -
  have p: "pages_of sid w = create_list_embeds (guild_name cf) (get_members sid w)"
    using assms(1) by (simp add: pages_of_def)
  show ?thesis
    unfolding p using assms by (simp add: update_list_def Let_def)
qed

lemma update_list_nil:
  assumes cfg: "get_server_config sid w = Some cf" "list_channel_id cf = Some ch"
    "get_channel ch w = Some b"
    and f: "faults w = []" and key: "messages_key w" and iss: "ids_issued w"
  shows "length (get_message_ids sid (update_list sid w)) = length (pages_of sid w)
     \<and> distinct (get_message_ids sid (update_list sid w))
     \<and> (\<forall>i \<in> set (get_message_ids sid (update_list sid w)). present ch i (update_list sid w))
     \<and> faults (update_list sid w) = [] \<and> ids_issued (update_list sid w)
     \<and> servers (update_list sid w) = servers w \<and> members (update_list sid w) = members w
     \<and> channels (update_list sid w) = channels w"
proof -
  let ?ex = "get_message_ids sid w"
  let ?es = "pages_of sid w"
  have inv0: "page_inv ch ?ex 0 [] w"
    using f iss stored_distinct[OF key] stored_issued[OF iss]
    by (auto simp: page_inv_def)
  from sync_pages_nil[OF inv0, of ?es] obtain new w1 where
    s: "sync_pages ch ?ex (enumerate 0 ?es) [] w = (Some new, w1)"
    and l: "length new = length ?es" and inv: "page_inv ch ?ex (length ?es) new w1"
    and d1: "same_db w w1"
    by auto
  from inv have f1: "faults w1 = []" and iss1: "ids_issued w1" and dn: "distinct new"
    and nlt: "\<forall>i \<in> set new. i < next_id w1"
    and disj: "set new \<inter> set (drop (length ?es) ?ex) = {}"
    and pres: "\<forall>i \<in> set new. present ch i w1"
    by (simp_all add: page_inv_def)
  from delete_excess_nil[OF f1, of ch "drop (length ?es) ?ex"] obtain w2 where
    de: "delete_excess ch (drop (length ?es) ?ex) w1 = (True, w2)" and f2: "faults w2 = []"
    and d2: "same_db w1 w2" and n2: "next_id w2 = next_id w1"
    and p2: "\<forall>c j. present c j w2
               = (present c j w1 \<and> \<not> (c = ch \<and> j \<in> set (drop (length ?es) ?ex)))"
    and iss2: "ids_issued w1 \<longrightarrow> ids_issued w2"
    by blast
  from save_message_ids_distinct[OF dn, of sid w2] obtain w3 where
    sv: "save_message_ids sid new w2 = Some w3" by blast
  have u: "update_list sid w = w3"
    using update_list_unfold[OF cfg] s de sv by simp
  have d12: "same_db w w2" using same_db_trans[OF d1 d2] .
  have pres3: "\<forall>i \<in> set new. present ch i w3"
    using pres p2 disj present_cong[OF save_message_ids_frame(4)[OF sv]] by auto
  have iss3: "ids_issued w3"
    using save_message_ids_issued[OF sv] iss1 iss2 nlt n2 by simp
  show ?thesis
    unfolding u
    using save_message_ids_get[OF sv] save_message_ids_frame[OF sv] l dn pres3 f2 iss3 d12
    by (simp add: same_db_def)
qed

lemma edits_zip:
  "length ex = length es \<Longrightarrow>
   map (\<lambda>(i, e). Edited (ex ! i) (EmbedMsg e)) (enumerate 0 es)
     = map (\<lambda>(m, e). Edited m (EmbedMsg e)) (zip ex es)"
  by (rule nth_equalityI) (simp_all add: nth_enumerate_eq)

lemma update_list_all_edits:
  assumes cfg: "get_server_config sid w = Some cf" "list_channel_id cf = Some ch"
    "get_channel ch w = Some b"
    and f: "faults w = []"
    and len: "length (get_message_ids sid w) = length (pages_of sid w)"
    and pres: "\<forall>i \<in> set (get_message_ids sid w). present ch i w"
    and dist: "distinct (get_message_ids sid w)"
  shows "get_message_ids sid (update_list sid w) = get_message_ids sid w
     \<and> ops (update_list sid w)
         = ops w @ map (\<lambda>(m, e). Edited m (EmbedMsg e))
                       (zip (get_message_ids sid w) (pages_of sid w))
     \<and> map fst (posted (update_list sid w)) = map fst (posted w)"
proof -
  let ?ex = "get_message_ids sid w"
  let ?es = "pages_of sid w"
  have "0 + length ?es \<le> length ?ex" using len by simp
  from sync_pages_all_edits[OF f this pres, of "[]"] obtain w1 where
    s: "sync_pages ch ?ex (enumerate 0 ?es) [] w = (Some ([] @ take (length ?es) (drop 0 ?ex)), w1)"
    and f1: "faults w1 = []" and d1: "same_db w w1"
    and m1: "map fst (posted w1) = map fst (posted w)"
    and o1: "ops w1 = ops w @ map (\<lambda>(i, e). Edited (?ex ! i) (EmbedMsg e)) (enumerate 0 ?es)"
    by blast
  have s': "sync_pages ch ?ex (enumerate 0 ?es) [] w = (Some ?ex, w1)"
    using s len by simp
  have de: "delete_excess ch (drop (length ?es) ?ex) w1 = (True, w1)"
    using len by simp
  from save_message_ids_distinct[OF dist, of sid w1] obtain w3 where
    sv: "save_message_ids sid ?ex w1 = Some w3" by blast
  have u: "update_list sid w = w3"
    using update_list_unfold[OF cfg] s' de sv by simp
  show ?thesis
    unfolding u
    using save_message_ids_get[OF sv] save_message_ids_frame[OF sv] m1 o1 edits_zip[OF len]
    by simp
qed


section \<open>Claims on the synchronisation pass\<close>

text \<open>
  C3, as stated, fails: the page is the existing message 100, and its edit is refused with
  status 403. The handler logs the error and goes on, the id of the page is not collected,
  and the list saved is empty although one page was rendered.
\<close>

theorem failed_page_shortens_stored_list:
  "\<not> length (get_message_ids ''A''
        (update_list ''A'' (one_page\<lparr>faults := [None, Some (HTTPException 403)]\<rparr>)))
     = length (pages_of ''A''
        (update_list ''A'' (one_page\<lparr>faults := [None, Some (HTTPException 403)]\<rparr>)))"
  by (simp add: eval_defs)

text \<open>
  C3, amended. For a configured group whose list channel the bot can see, in a state where
  the stored ids are unique per group and were issued by the platform: after a pass in which
  the platform raises nothing but \<open>NotFound\<close> for messages that no longer exist, the stored
  id list is as long as the list of pages rendered from the members.
\<close>

theorem stored_ids_match_pages:
  assumes "get_server_config sid w = Some cf" "list_channel_id cf = Some ch"
    "get_channel ch w = Some b"
    and "faults w = []" and "messages_key w" and "ids_issued w"
  shows "length (get_message_ids sid (update_list sid w))
           = length (pages_of sid (update_list sid w))"
proof -
  from update_list_nil[OF assms]
  have l: "length (get_message_ids sid (update_list sid w)) = length (pages_of sid w)"
    and s: "servers (update_list sid w) = servers w"
    and m: "members (update_list sid w) = members w"
    by simp_all
  show ?thesis using l pages_of_cong[OF s m] by simp
qed

theorem stored_ids_match_pages_witness:
  "faults stale_ids = [] \<and> messages_key stale_ids \<and> ids_issued stale_ids
   \<and> get_message_ids ''A'' stale_ids = [100, 101, 102]
   \<and> length (pages_of ''A'' (update_list ''A'' stale_ids)) = 1
   \<and> length (get_message_ids ''A'' (update_list ''A'' stale_ids))
       = length (pages_of ''A'' (update_list ''A'' stale_ids))"
proof -
  have h: "get_server_config ''A'' stale_ids = Some (cfg 10 11 True)"
    "list_channel_id (cfg 10 11 True) = Some 10" "get_channel 10 stale_ids = Some True"
    "faults stale_ids = []" "messages_key stale_ids" "ids_issued stale_ids"
    by (simp_all add: ex_defs db_defs get_channel_def messages_key_def ids_issued_def)
  have e: "get_message_ids ''A'' stale_ids = [100, 101, 102]"
    "length (pages_of ''A'' (update_list ''A'' stale_ids)) = 1"
    by (simp_all add: eval_defs)
  show ?thesis using stored_ids_match_pages[OF h] h(4,5,6) e by simp
qed

text \<open>
  C5, as stated, fails when the platform refuses an edit. With the edit of the first pass
  refused (status 403) the handler logs and goes on: the first pass saves the empty list,
  the members are as before and message 100 still exists, and the second pass, in which
  nothing is refused, sends a new message. With the edit of the second pass refused, the
  list the second pass stores is not the one the first pass stored.
\<close>

theorem refused_edit_breaks_idempotence:
  "get_message_ids ''A''
      (update_list ''A'' (one_page\<lparr>faults := [None, Some (HTTPException 403)]\<rparr>)) = []
   \<and> members (update_list ''A'' (one_page\<lparr>faults := [None, Some (HTTPException 403)]\<rparr>))
       = members one_page
   \<and> present 10 100 (update_list ''A'' (one_page\<lparr>faults := [None, Some (HTTPException 403)]\<rparr>))
   \<and> ops (update_list ''A''
          (update_list ''A'' (one_page\<lparr>faults := [None, Some (HTTPException 403)]\<rparr>)))
       = map (Sent 10 101 \<circ> EmbedMsg) (pages_of ''A'' one_page)
   \<and> length (pages_of ''A'' one_page) = 1
   \<and> get_message_ids ''A''
        (update_list ''A''
          (one_page\<lparr>faults := [None, None, None, Some (HTTPException 403)]\<rparr>)) = [100]
   \<and> get_message_ids ''A''
        (update_list ''A'' (update_list ''A''
          (one_page\<lparr>faults := [None, None, None, Some (HTTPException 403)]\<rparr>))) = []"
  by (simp add: eval_defs present_def)

text \<open>
  C5, amended. Two passes in succession for a configured group, the platform raising
  nothing in either pass but \<open>NotFound\<close> for messages that no longer exist: the first pass
  stores one id per page; the operations of the second pass are exactly one edit per page,
  of the message stored for that page (no creation, no deletion, the messages that exist are
  the same), and the id list it stores is the one the first pass stored.
\<close>

theorem second_pass_only_edits:
  assumes "get_server_config sid w = Some cf" "list_channel_id cf = Some ch"
    "get_channel ch w = Some b"
    and "faults w = []" and "messages_key w" and "ids_issued w"
    and "w1 = update_list sid w" and "w2 = update_list sid w1"
  shows "get_message_ids sid w2 = get_message_ids sid w1
     \<and> length (get_message_ids sid w1) = length (pages_of sid w1)
     \<and> ops w2 = ops w1 @ map (\<lambda>(m, e). Edited m (EmbedMsg e))
                             (zip (get_message_ids sid w1) (pages_of sid w1))
     \<and> filter (\<lambda>x. \<not> is_edit x) (drop (length (ops w1)) (ops w2)) = []
     \<and> map fst (posted w2) = map fst (posted w1)"
proof -
  from update_list_nil[OF assms(1-6)] assms(7)
  have l: "length (get_message_ids sid w1) = length (pages_of sid w)"
    and d: "distinct (get_message_ids sid w1)"
    and p: "\<forall>i \<in> set (get_message_ids sid w1). present ch i w1"
    and f: "faults w1 = []"
    and s: "servers w1 = servers w" and m: "members w1 = members w"
    and c: "channels w1 = channels w"
    by simp_all
  have pg: "pages_of sid w1 = pages_of sid w" using pages_of_cong[OF s m] .
  have cfg1: "get_server_config sid w1 = Some cf" "get_channel ch w1 = Some b"
    using assms(1,3) s c by (simp_all add: get_server_config_def get_channel_def)
  have l1: "length (get_message_ids sid w1) = length (pages_of sid w1)" using l pg by simp
  from update_list_all_edits[OF cfg1(1) assms(2) cfg1(2) f l1 p d] assms(8)
  have r: "get_message_ids sid w2 = get_message_ids sid w1"
    "ops w2 = ops w1 @ map (\<lambda>(m, e). Edited m (EmbedMsg e))
                             (zip (get_message_ids sid w1) (pages_of sid w1))"
    "map fst (posted w2) = map fst (posted w1)"
    by simp_all
  have "filter (\<lambda>x. \<not> is_edit x) (drop (length (ops w1)) (ops w2)) = []"
    unfolding r(2) by (auto simp: filter_empty_conv is_edit_def)
  then show ?thesis using r l1 by simp
qed

theorem second_pass_only_edits_witness:
  "faults stale_ids = [] \<and> messages_key stale_ids \<and> ids_issued stale_ids
   \<and> get_message_ids ''A'' (update_list ''A'' stale_ids) = [100]
   \<and> get_message_ids ''A'' (update_list ''A'' (update_list ''A'' stale_ids))
       = get_message_ids ''A'' (update_list ''A'' stale_ids)
   \<and> ops (update_list ''A'' (update_list ''A'' stale_ids))
       = ops (update_list ''A'' stale_ids)
         @ map (\<lambda>(m, e). Edited m (EmbedMsg e))
               (zip (get_message_ids ''A'' (update_list ''A'' stale_ids))
                    (pages_of ''A'' (update_list ''A'' stale_ids)))
   \<and> map fst (posted (update_list ''A'' (update_list ''A'' stale_ids)))
       = map fst (posted (update_list ''A'' stale_ids))"
proof -
  have h: "get_server_config ''A'' stale_ids = Some (cfg 10 11 True)"
    "list_channel_id (cfg 10 11 True) = Some 10" "get_channel 10 stale_ids = Some True"
    "faults stale_ids = []" "messages_key stale_ids" "ids_issued stale_ids"
    by (simp_all add: ex_defs db_defs get_channel_def messages_key_def ids_issued_def)
  have e: "get_message_ids ''A'' (update_list ''A'' stale_ids) = [100]"
    by (simp add: eval_defs)
  show ?thesis
    using second_pass_only_edits[OF h refl refl] h(4,5,6) e by simp
qed

text \<open>
  C10, as stated, fails. With the deletion of message 100 refused (status 403) the handler
  logs and goes on: the empty list is saved and the message is still posted. With the list
  channel of the group changed from 10 to 12, the stored message 100, posted in channel 10,
  is looked up in channel 12, is not found there, and is left where it is while the list is
  emptied; no platform call fails otherwise.
\<close>

theorem stored_message_survives_empty_roster:
  "get_message_ids ''A'' empty_roster = [100, 101]
   \<and> pages_of ''A'' empty_roster = []
   \<and> get_message_ids ''A''
        (update_list ''A'' (empty_roster\<lparr>faults := [None, Some (HTTPException 403)]\<rparr>)) = []
   \<and> posted (update_list ''A'' (empty_roster\<lparr>faults := [None, Some (HTTPException 403)]\<rparr>))
       = [(100, 10, stale_page)]
   \<and> get_message_ids ''A''
        (update_list ''A''
          (empty_roster\<lparr>servers := [(''A'', cfg 12 11 True)], channels := [(12, True)]\<rparr>)) = []
   \<and> posted (update_list ''A''
          (empty_roster\<lparr>servers := [(''A'', cfg 12 11 True)], channels := [(12, True)]\<rparr>))
       = [(100, 10, stale_page)]"
  by (simp add: eval_defs)

text \<open>
  C10, amended. For a configured group without members whose list channel the bot can see,
  a pass renders no page. If no platform call to come fails with status 429 or with an
  exception that is not an \<open>HTTPException\<close>, the pass stores the empty id list. If the
  platform raises nothing but \<open>NotFound\<close> for messages that are not in the channel, the
  messages that exist after the pass are those that existed before, less the stored ones
  posted in the list channel of the group: each of these is deleted, a stored id that is
  gone counts as done, and a stored message posted in another channel stays.
\<close>

theorem empty_roster_clears_display:
  assumes "get_server_config sid w = Some cf" "list_channel_id cf = Some ch"
    "get_channel ch w = Some b"
    and "server_rows sid w = []"
  shows "pages_of sid w = []
     \<and> (no_abort w \<longrightarrow> get_message_ids sid (update_list sid w) = [])
     \<and> (faults w = []
          \<longrightarrow> get_message_ids sid (update_list sid w) = []
            \<and> (\<forall>c i. present c i (update_list sid w)
                  = (present c i w \<and> \<not> (c = ch \<and> i \<in> set (get_message_ids sid w)))))"
proof -
  let ?ex = "get_message_ids sid w"
  have pg: "pages_of sid w = []"
    using assms(1,4)
    by (simp add: pages_of_def get_members_def create_list_embeds_def chunks_of_def)
  have u: "update_list sid w =
      (case delete_excess ch ?ex w of
         (False, w2) \<Rightarrow> w2
       | (True, w2) \<Rightarrow> (case save_message_ids sid [] w2 of None \<Rightarrow> w2 | Some w3 \<Rightarrow> w3))"
    using update_list_unfold[OF assms(1-3)] pg by simp
  have a: "get_message_ids sid (update_list sid w) = []" if "no_abort w"
  proof -
    from delete_excess_no_abort[OF that, of ch ?ex] obtain w2 where
      de: "delete_excess ch ?ex w = (True, w2)" by blast
    from save_message_ids_distinct[of "[]" sid w2] obtain w3 where
      sv: "save_message_ids sid [] w2 = Some w3" by auto
    show ?thesis using u de sv save_message_ids_get[OF sv] by simp
  qed
  have b: "\<forall>c i. present c i (update_list sid w) = (present c i w \<and> \<not> (c = ch \<and> i \<in> set ?ex))"
    if "faults w = []"
  proof -
    from delete_excess_nil[OF that, of ch ?ex] obtain w2 where
      de: "delete_excess ch ?ex w = (True, w2)"
      and p2: "\<forall>c j. present c j w2 = (present c j w \<and> \<not> (c = ch \<and> j \<in> set ?ex))" by blast
    from save_message_ids_distinct[of "[]" sid w2] obtain w3 where
      sv: "save_message_ids sid [] w2 = Some w3" by auto
    have "update_list sid w = w3" using u de sv by simp
    then show ?thesis
      using p2 present_cong[OF save_message_ids_frame(4)[OF sv]] by simp
  qed
  have n: "no_abort w" if "faults w = []" using that by (simp add: no_abort_def)
  show ?thesis using pg a b n by blast
qed

theorem empty_roster_clears_display_witness:
  "server_rows ''A'' empty_roster = [] \<and> faults empty_roster = [] \<and> no_abort empty_roster
   \<and> get_message_ids ''A'' empty_roster = [100, 101]
   \<and> present 10 100 empty_roster
   \<and> pages_of ''A'' empty_roster = []
   \<and> get_message_ids ''A'' (update_list ''A'' empty_roster) = []
   \<and> \<not> present 10 100 (update_list ''A'' empty_roster)
   \<and> \<not> present 10 101 (update_list ''A'' empty_roster)
   \<and> ops (update_list ''A'' empty_roster) = [Deleted 100]"
proof -
  have h: "get_server_config ''A'' empty_roster = Some (cfg 10 11 True)"
    "list_channel_id (cfg 10 11 True) = Some 10" "get_channel 10 empty_roster = Some True"
    "server_rows ''A'' empty_roster = []"
    by (simp_all add: ex_defs db_defs get_channel_def)
  have e: "faults empty_roster = []" "no_abort empty_roster"
    "get_message_ids ''A'' empty_roster = [100, 101]"
    "present 10 100 empty_roster" "ops (update_list ''A'' empty_roster) = [Deleted 100]"
    by (simp_all add: eval_defs present_def no_abort_def)
  show ?thesis
    using empty_roster_clears_display[OF h] h(4) e by simp
qed

section \<open>What the member loop changes\<close>

lemma http_get_members: "members (snd (http_get name w)) = members w"
  by (simp add: http_get_def split: list.splits)

lemma check_attempts_members: "members (snd (check_attempts as name g w)) = members w"
proof (induction as arbitrary: w)
  case Nil
  then show ?case by simp
next
  case (Cons a as)
  show ?case
    using Cons.IH
    by (auto simp: http_get_def sleep_def split: list.splits http_outcome.splits option.splits)
qed

lemma check_aqw_guild_members: "members (snd (check_aqw_guild name g w)) = members w"
  using check_attempts_members[of "[0..<MAX_RETRIES]" name g w]
  by (auto simp: check_aqw_guild_def check_aqw_guild_body_def Let_def
      split: option.splits prod.splits)

lemma throttle_members [simp]: "members (throttle tc w) = members w"
  by (simp add: throttle_def sleep_def)

lemma sleep_members [simp]: "members (sleep d w) = members w"
  by (simp add: sleep_def)

lemma log_action_members [simp]: "members (log_action sid a w) = members w"
  by (simp add: log_action_def send_def next_fault_def store_new_def
      split: option.splits list.splits)

lemma apply_policy_members:
  "members (apply_policy sid cf name v w) =
     (if \<not> truthy v \<and> autoremove cf
      then filter (\<lambda>m. \<not> (m_server m = sid \<and> m_normalized m = lower name)) (members w)
      else map (\<lambda>m. if m_server m = sid \<and> m_normalized m = lower name
                     then m\<lparr>last_checked := time_now w\<rparr> else m) (members w))"
  by (simp add: apply_policy_def remove_member_def update_last_checked_def)

lemma filter_map_upd:
  "(\<And>m. P m \<Longrightarrow> P (f m)) \<Longrightarrow>
   filter (\<lambda>m. \<not> P m) (map (\<lambda>m. if P m then f m else m) xs) = filter (\<lambda>m. \<not> P m) xs"
  by (induction xs) auto

lemma check_result_members:
  assumes "check_aqw_guild name g (throttle tc w) = (v, w1)"
  shows "members w1 = members w"
  using check_aqw_guild_members[of name g "throttle tc w"] assms by simp

lemma check_member_members:
  assumes "check_aqw_guild name (guild_name cf) (throttle tc w) = (v, w1)"
  shows "members (snd (snd (check_member sid cf name (tc, sc, w))))
           = members (apply_policy sid cf name v w1)"
  using assms by (simp add: check_member_def)

text \<open>No step of the member loop brings a name into a group.\<close>

lemma absent_iff:
  "absent sid name w \<longleftrightarrow> (\<forall>m \<in> set (members w). \<not> (m_server m = sid \<and> m_name m = name))"
  by (auto simp: absent_def get_members_def server_rows_def image_iff)

lemma absent_check_member:
  assumes "absent sid name (snd (snd st))"
  shows "absent sid name (snd (snd (check_member s c n st)))"
proof -
  obtain tc sc w where st: "st = (tc, sc, w)" by (cases st)
  obtain v w1 where ch: "check_aqw_guild n (guild_name c) (throttle tc w) = (v, w1)"
    by (cases "check_aqw_guild n (guild_name c) (throttle tc w)")
  have m: "members (snd (snd (check_member s c n (tc, sc, w))))
           = members (apply_policy s c n v w1)"
    using check_member_members[OF ch] .
  have m1: "members w1 = members w" using check_result_members[OF ch] .
  show ?thesis
    using assms unfolding st absent_iff m apply_policy_members m1
    by auto
qed

lemma absent_fold:
  assumes "absent sid name (snd (snd st))"
  shows "absent sid name (snd (snd (fold (\<lambda>(s, c, n). check_member s c n) steps st)))"
  using assms
proof (induction steps arbitrary: st)
  case Nil
  then show ?case by simp
next
  case (Cons x steps)
  obtain s c n where x: "x = (s, c, n)" by (cases x)
  show ?case
    using Cons.IH[OF absent_check_member[OF Cons.prems, of s c n]] x by simp
qed

lemma sweep_selects_autoremove_groups:
  assumes "distinct (map fst (servers w))" "sid \<in> set (select_servers w)"
  shows "\<exists>c. get_server_config sid w = Some c \<and> autoremove c"
proof -
  from assms(2) obtain c where "(sid, c) \<in> set (servers w)" "autoremove c"
    by (auto simp: select_servers_def)
  then show ?thesis
    using assms(1) by (auto simp: get_server_config_def)
qed

section \<open>What a pass leaves alone\<close>

lemma fetch_message_dbD: "fetch_message ch i w = (r, w1) \<Longrightarrow> same_db w w1"
  by (auto simp: fetch_message_def next_fault_def same_db_def split: list.splits option.splits if_splits)

lemma edit_message_dbD: "edit_message i v w = (r, w1) \<Longrightarrow> same_db w w1"
  by (auto simp: edit_message_def next_fault_def same_db_def store_edit_def
      split: list.splits option.splits)

lemma send_dbD: "send ch v w = (r, w1) \<Longrightarrow> same_db w w1"
  by (auto simp: send_def next_fault_def same_db_def store_new_def split: list.splits option.splits)

lemma delete_message_dbD: "delete_message i w = (r, w1) \<Longrightarrow> same_db w w1"
  by (auto simp: delete_message_def next_fault_def same_db_def store_delete_def
      split: list.splits option.splits)

lemma try_page_dbD:
  assumes "try_page ch ex idx e w = (r, w1)"
  shows "same_db w w1"
proof (cases "idx < length ex")
  case True
  obtain r0 w0 where f: "fetch_message ch (ex ! idx) (pace idx w) = (r0, w0)"
    by (cases "fetch_message ch (ex ! idx) (pace idx w)")
  have d0: "same_db w w0"
    using same_db_trans[OF same_db_pace fetch_message_dbD[OF f]] .
  show ?thesis
  proof (cases r0)
    case (Inl x)
    then show ?thesis using assms True f d0 by (simp add: try_page_def)
  next
    case (Inr m)
    then have "edit_message m (EmbedMsg e) w0 = (r, w1)"
      using assms True f by (simp add: try_page_def)
    from same_db_trans[OF d0 edit_message_dbD[OF this]] show ?thesis .
  qed
next
  case False
  then have "send ch (EmbedMsg e) (pace idx w) = (r, w1)"
    using assms by (simp add: try_page_def)
  from same_db_trans[OF same_db_pace send_dbD[OF this]] show ?thesis .
qed

lemma sync_page_dbD:
  assumes "sync_page ch ex idx e new w = (r, w1)"
  shows "same_db w w1"
proof -
  obtain r0 w0 where t: "try_page ch ex idx e w = (r0, w0)"
    by (cases "try_page ch ex idx e w")
  have d0: "same_db w w0" using try_page_dbD[OF t] .
  obtain r2 w2 where s: "send ch (EmbedMsg e) w0 = (r2, w2)"
    by (cases "send ch (EmbedMsg e) w0")
  have d2: "same_db w w2" using same_db_trans[OF d0 send_dbD[OF s]] .
  show ?thesis
    using assms t s d0 d2
    by (auto simp: sync_page_def split: sum.splits exn.splits if_splits)
qed

lemma sync_pages_dbD:
  "sync_pages ch ex ps new w = (r, w1) \<Longrightarrow> same_db w w1"
proof (induction ps arbitrary: new w)
  case Nil
  then show ?case by simp
next
  case (Cons p ps)
  obtain idx e where p: "p = (idx, e)" by (cases p)
  obtain r0 w0 where s: "sync_page ch ex idx e new w = (r0, w0)"
    by (cases "sync_page ch ex idx e new w")
  have d0: "same_db w w0" using sync_page_dbD[OF s] .
  show ?case
  proof (cases r0)
    case None
    then show ?thesis using Cons.prems p s d0 by simp
  next
    case (Some new1)
    then have "sync_pages ch ex ps new1 w0 = (r, w1)" using Cons.prems p s by simp
    from same_db_trans[OF d0 Cons.IH[OF this]] show ?thesis .
  qed
qed

lemma delete_handler_dbD: "delete_handler x w = (r, w1) \<Longrightarrow> w1 = w"
  by (auto simp: delete_handler_def split: exn.splits if_splits)

lemma delete_excess_message_dbD:
  assumes "delete_excess_message ch i w = (r, w1)"
  shows "same_db w w1"
proof -
  obtain r0 w0 where f: "fetch_message ch i w = (r0, w0)" by (cases "fetch_message ch i w")
  have d0: "same_db w w0" using fetch_message_dbD[OF f] .
  show ?thesis
  proof (cases r0)
    case (Inl x)
    then show ?thesis
      using assms f d0 by (auto simp: delete_excess_message_def dest: delete_handler_dbD)
  next
    case (Inr m)
    obtain r2 w2 where d: "delete_message m w0 = (r2, w2)" by (cases "delete_message m w0")
    have d2: "same_db w w2" using same_db_trans[OF d0 delete_message_dbD[OF d]] .
    show ?thesis
      using assms f Inr d d2
      by (auto simp: delete_excess_message_def split: sum.splits dest: delete_handler_dbD)
  qed
qed

lemma delete_excess_dbD:
  "delete_excess ch ds w = (r, w1) \<Longrightarrow> same_db w w1"
proof (induction ds arbitrary: w)
  case Nil
  then show ?case by simp
next
  case (Cons i ds)
  obtain r0 w0 where s: "delete_excess_message ch i w = (r0, w0)"
    by (cases "delete_excess_message ch i w")
  have d0: "same_db w w0" using delete_excess_message_dbD[OF s] .
  show ?case
  proof (cases r0)
    case False
    then show ?thesis using Cons.prems s d0 by simp
  next
    case True
    then have "delete_excess ch ds w0 = (r, w1)" using Cons.prems s by simp
    from same_db_trans[OF d0 Cons.IH[OF this]] show ?thesis .
  qed
qed

text \<open>A pass, whatever the platform raises, writes table \<open>messages\<close> only.\<close>

lemma update_list_frame:
  "servers (update_list sid w) = servers w \<and> members (update_list sid w) = members w"
  by (auto simp: update_list_def Let_def same_db_def save_message_ids_def
      split: option.splits prod.splits bool.splits if_splits
      dest!: sync_pages_dbD delete_excess_dbD)


section \<open>What the sweep changes\<close>

lemma check_attempts_servers: "servers (snd (check_attempts as name g w)) = servers w"
proof (induction as arbitrary: w)
  case Nil
  then show ?case by simp
next
  case (Cons a as)
  show ?case
    using Cons.IH
    by (auto simp: http_get_def sleep_def split: list.splits http_outcome.splits option.splits)
qed

lemma check_aqw_guild_servers: "servers (snd (check_aqw_guild name g w)) = servers w"
  using check_attempts_servers[of "[0..<MAX_RETRIES]" name g w]
  by (auto simp: check_aqw_guild_def check_aqw_guild_body_def Let_def
      split: option.splits prod.splits)

lemma log_action_servers [simp]: "servers (log_action sid a w) = servers w"
  by (simp add: log_action_def send_def next_fault_def store_new_def
      split: option.splits list.splits)

lemma check_member_servers:
  "servers (snd (snd (check_member s c n st))) = servers (snd (snd st))"
proof -
  obtain tc sc w where st: "st = (tc, sc, w)" by (cases st)
  obtain v w1 where ch: "check_aqw_guild n (guild_name c) (throttle tc w) = (v, w1)"
    by (cases "check_aqw_guild n (guild_name c) (throttle tc w)")
  have "servers w1 = servers w"
    using check_aqw_guild_servers[of n "guild_name c" "throttle tc w"] ch
    by (simp add: throttle_def sleep_def)
  then show ?thesis
    unfolding st using ch
    by (simp add: check_member_def apply_policy_def remove_member_def update_last_checked_def
        sleep_def)
qed

text \<open>The table \<open>members\<close> after one run of the body of the member loop.\<close>

lemma check_member_rows:
  assumes "check_aqw_guild n (guild_name c) (throttle tc w) = (v, w1)"
  shows "members (snd (snd (check_member s c n (tc, sc, w)))) =
     (if \<not> truthy v \<and> autoremove c
      then filter (\<lambda>m. \<not> (m_server m = s \<and> m_normalized m = lower n)) (members w)
      else map (\<lambda>m. if m_server m = s \<and> m_normalized m = lower n
                     then m\<lparr>last_checked := time_now w1\<rparr> else m) (members w))"
  using check_member_members[OF assms, of s sc] check_result_members[OF assms]
  by (simp add: apply_policy_members)

lemma normalized_ok_check_member:
  assumes "normalized_ok (snd (snd st))"
  shows "normalized_ok (snd (snd (check_member s c n st)))"
proof -
  obtain tc sc w where st: "st = (tc, sc, w)" by (cases st)
  obtain v w1 where ch: "check_aqw_guild n (guild_name c) (throttle tc w) = (v, w1)"
    by (cases "check_aqw_guild n (guild_name c) (throttle tc w)")
  show ?thesis
    using assms unfolding st normalized_ok_def check_member_rows[OF ch]
    by auto
qed

lemma key_gone_check_member:
  assumes "\<forall>m \<in> set (server_rows sid (snd (snd st))). m_normalized m \<noteq> k"
  shows "\<forall>m \<in> set (server_rows sid (snd (snd (check_member s c n st)))). m_normalized m \<noteq> k"
proof -
  obtain tc sc w where st: "st = (tc, sc, w)" by (cases st)
  obtain v w1 where ch: "check_aqw_guild n (guild_name c) (throttle tc w) = (v, w1)"
    by (cases "check_aqw_guild n (guild_name c) (throttle tc w)")
  show ?thesis
    using assms unfolding st server_rows_def check_member_rows[OF ch]
    by auto
qed

lemma other_group_check_member:
  assumes "s \<noteq> sid"
  shows "server_rows sid (snd (snd (check_member s c n st))) = server_rows sid (snd (snd st))"
proof -
  obtain tc sc w where st: "st = (tc, sc, w)" by (cases st)
  obtain v w1 where ch: "check_aqw_guild n (guild_name c) (throttle tc w) = (v, w1)"
    by (cases "check_aqw_guild n (guild_name c) (throttle tc w)")
  have 1: "filter (\<lambda>m. m_server m = sid)
             (filter (\<lambda>m. \<not> (m_server m = s \<and> m_normalized m = lower n)) xs)
           = filter (\<lambda>m. m_server m = sid) xs" for xs
    using assms by (induction xs) auto
  have 2: "filter (\<lambda>m. m_server m = sid)
             (map (\<lambda>m. if m_server m = s \<and> m_normalized m = lower n
                        then m\<lparr>last_checked := t\<rparr> else m) xs)
           = filter (\<lambda>m. m_server m = sid) xs" for xs t
    using assms by (induction xs) auto
  have "filter (\<lambda>m. m_server m = sid) (members (snd (snd (check_member s c n (tc, sc, w)))))
          = filter (\<lambda>m. m_server m = sid) (members w)"
  proof (cases "\<not> truthy v \<and> autoremove c")
    case True
    then have "members (snd (snd (check_member s c n (tc, sc, w))))
        = filter (\<lambda>m. \<not> (m_server m = s \<and> m_normalized m = lower n)) (members w)"
      using check_member_rows[OF ch, of s sc] by simp
    then show ?thesis by (simp only: 1)
  next
    case False
    have "members (snd (snd (check_member s c n (tc, sc, w))))
        = map (\<lambda>m. if m_server m = s \<and> m_normalized m = lower n
                     then m\<lparr>last_checked := time_now w1\<rparr> else m) (members w)"
      by (simp only: check_member_rows[OF ch] False if_False)
    then show ?thesis by (simp only: 2)
  qed
  then show ?thesis
    unfolding st server_rows_def by simp
qed

text \<open>What every run of the body keeps, the loops of the sweep keep.\<close>

lemma fold_check_member_keeps:
  assumes "\<And>n st. P (snd (snd st)) \<Longrightarrow> P (snd (snd (check_member s c n st)))"
    and "P (snd (snd st))"
  shows "P (snd (snd (fold (check_member s c) ns st)))"
  using assms(2)
proof (induction ns arbitrary: st)
  case Nil
  then show ?case by simp
next
  case (Cons n ns)
  show ?case using Cons.IH[OF assms(1)[OF Cons.prems]] by simp
qed

lemma check_server_keeps:
  assumes "\<And>c n st. P (snd (snd st)) \<Longrightarrow> P (snd (snd (check_member s c n st)))"
    and "P (snd (snd st))"
  shows "P (snd (snd (check_server s st)))"
proof -
  obtain tc sc w where st: "st = (tc, sc, w)" by (cases st)
  show ?thesis
  proof (cases "get_server_config s w")
    case None
    then show ?thesis using assms(2) st by (simp add: check_server_def)
  next
    case (Some c)
    have "P (snd (snd (fold (check_member s c) (select_due s w) st)))"
      using fold_check_member_keeps[where P = P, OF assms(1) assms(2)] .
    then show ?thesis using Some st by (simp add: check_server_def)
  qed
qed

lemma fold_check_server_keeps:
  assumes "\<And>s c n st. s \<in> set sids \<Longrightarrow> P (snd (snd st))
             \<Longrightarrow> P (snd (snd (check_member s c n st)))"
    and "P (snd (snd st))"
  shows "P (snd (snd (fold check_server sids st)))"
  using assms
proof (induction sids arbitrary: st)
  case Nil
  then show ?case by simp
next
  case (Cons s sids)
  have 1: "P (snd (snd (check_server s st)))"
    by (rule check_server_keeps[where P = P]) (auto intro: Cons.prems)
  have "P (snd (snd (fold check_server sids (check_server s st))))"
    by (rule Cons.IH) (auto intro: Cons.prems(1) 1)
  then show ?case by simp
qed

lemma live_guild_check_members:
  "members (live_guild_check w) = members (snd (snd (fold check_server (select_servers w) (0, 0, w))))"
  by (simp add: live_guild_check_def Let_def update_list_frame split: prod.splits)

lemma unselected_group_untouched:
  assumes "sid \<notin> set (select_servers w)"
  shows "server_rows sid (live_guild_check w) = server_rows sid w"
proof -
  have "server_rows sid (snd (snd (fold check_server (select_servers w) (0, 0, w))))
          = server_rows sid w"
  proof (rule fold_check_server_keeps[where P = "\<lambda>v. server_rows sid v = server_rows sid w"])
    fix s c n and st :: "nat \<times> nat \<times> world"
    assume "s \<in> set (select_servers w)"
      and p: "server_rows sid (snd (snd st)) = server_rows sid w"
    then have "s \<noteq> sid" using assms by auto
    from other_group_check_member[OF this] p
    show "server_rows sid (snd (snd (check_member s c n st))) = server_rows sid w" by simp
  qed simp
  then show ?thesis
    by (simp add: server_rows_def live_guild_check_members)
qed

lemma disabled_group_unselected:
  assumes "distinct (map fst (servers w))" "get_server_config sid w = Some cf"
    "\<not> autoremove cf"
  shows "sid \<notin> set (select_servers w)"
  using sweep_selects_autoremove_groups[OF assms(1), of sid] assms(2,3) by auto


lemma removed_by_check_member:
  assumes "normalized_ok w" "autoremove c"
    and "\<not> truthy (fst (check_aqw_guild n (guild_name c) (throttle tc w)))"
  shows "(\<forall>m \<in> set (server_rows s (snd (snd (check_member s c n (tc, sc, w))))).
            m_normalized m \<noteq> lower n)
       \<and> absent s n (snd (snd (check_member s c n (tc, sc, w))))"
proof -
  obtain v w1 where ch: "check_aqw_guild n (guild_name c) (throttle tc w) = (v, w1)"
    by (cases "check_aqw_guild n (guild_name c) (throttle tc w)")
  have m: "members (snd (snd (check_member s c n (tc, sc, w))))
        = filter (\<lambda>m. \<not> (m_server m = s \<and> m_normalized m = lower n)) (members w)"
    using check_member_rows[OF ch, of s sc] assms(2,3) ch by simp
  show ?thesis
    unfolding absent_iff server_rows_def m using assms(1)
    by (auto simp: normalized_ok_def)
qed

text \<open>
  C7, as stated, fails for a group whose \<open>autoremove\<close> flag is off: the sweep selects the
  groups with \<open>autoremove = 1\<close> only (line 678), so no member of another group is verified
  and no \<open>last_checked\<close> of it is written. Group B has the flag off and the profile of its
  member Carol shows another guild. The sweep, begun at time 100, sends the requests for
  Alice and Bob of group A and none for Carol; afterwards a verification of Carol still
  fails, and her row is as it was, last checked at time 9.
\<close>

theorem disabled_group_is_not_checked:
  "get_server_config ''B'' sweep_groups = Some (cfg 20 21 False)
   \<and> server_rows ''B'' sweep_groups = [row ''B'' ''Carol'' 9]
   \<and> time_now sweep_groups = 100
   \<and> requested (live_guild_check sweep_groups) = [''Alice'', ''Bob'']
   \<and> \<not> truthy (fst (check_aqw_guild ''Carol'' ''Legion'' (live_guild_check sweep_groups)))
   \<and> server_rows ''B'' (live_guild_check sweep_groups) = [row ''B'' ''Carol'' 9]"
  by (simp add: eval_defs)

text \<open>
  C7, amended. In a state where \<open>server_id\<close> is the key of table \<open>servers\<close> and every row of
  \<open>members\<close> carries the key of its name, for a configured group \<open>sid\<close>:

  \<^item> when the sweep reaches \<open>sid\<close> (after the groups \<open>pre\<close>, in the state \<open>wa\<close>), selects
    \<open>name\<close> there (after the names \<open>ns1\<close>), reaches it in the state \<open>wb\<close> and the check of
    \<open>name\<close> made there returns a falsy value, then the group has \<open>autoremove\<close> set, and
    when the sweep has ended no row of the group carries the key of \<open>name\<close> and \<open>name\<close> is
    not on the roster that the next pass renders;

  \<^item> when \<open>autoremove\<close> is not set, the sweep does not select the group and its rows are
    after the sweep what they were before, \<open>last_checked\<close> included.
\<close>

theorem sweep_removal_policy:
  assumes "normalized_ok w" and "distinct (map fst (servers w))"
    and "get_server_config sid w = Some cf"
  shows "(select_servers w = pre @ sid # post
          \<and> fold check_server pre (0, 0, w) = (tc, sc, wa)
          \<and> select_due sid wa = ns1 @ name # ns2
          \<and> fold (check_member sid cf) ns1 (tc, sc, wa) = (tc1, sc1, wb)
          \<and> \<not> truthy (fst (check_aqw_guild name (guild_name cf) (throttle tc1 wb)))
        \<longrightarrow> autoremove cf
          \<and> (\<forall>m \<in> set (server_rows sid (live_guild_check w)). m_normalized m \<noteq> lower name)
          \<and> absent sid name (live_guild_check w))
     \<and> (\<not> autoremove cf
        \<longrightarrow> sid \<notin> set (select_servers w)
          \<and> server_rows sid (live_guild_check w) = server_rows sid w)"
proof -
  have off: "sid \<notin> set (select_servers w)
          \<and> server_rows sid (live_guild_check w) = server_rows sid w" if "\<not> autoremove cf"
    using disabled_group_unselected[OF assms(2,3) that] unselected_group_untouched by simp
  have on: "autoremove cf
          \<and> (\<forall>m \<in> set (server_rows sid (live_guild_check w)). m_normalized m \<noteq> lower name)
          \<and> absent sid name (live_guild_check w)"
    if sel: "select_servers w = pre @ sid # post"
      and pre: "fold check_server pre (0, 0, w) = (tc, sc, wa)"
      and due: "select_due sid wa = ns1 @ name # ns2"
      and ns1: "fold (check_member sid cf) ns1 (tc, sc, wa) = (tc1, sc1, wb)"
      and fails: "\<not> truthy (fst (check_aqw_guild name (guild_name cf) (throttle tc1 wb)))"
  proof -
    have ar: "autoremove cf"
      using sweep_selects_autoremove_groups[OF assms(2), of sid] sel assms(3) by auto
    have sa: "servers wa = servers w"
      using fold_check_server_keeps[where P = "\<lambda>v. servers v = servers w" and sids = pre
          and st = "(0, 0, w)"] pre
      by (simp add: check_member_servers)
    have na: "normalized_ok wa"
      using fold_check_server_keeps[where P = normalized_ok and sids = pre and st = "(0, 0, w)"]
        pre assms(1)
      by (simp add: normalized_ok_check_member)
    have nb: "normalized_ok wb"
      using fold_check_member_keeps[where P = normalized_ok and s = sid and c = cf and ns = ns1
          and st = "(tc, sc, wa)"] ns1 na
      by (simp add: normalized_ok_check_member)
    have cs: "check_server sid (tc, sc, wa)
            = fold (check_member sid cf) ns2 (check_member sid cf name (tc1, sc1, wb))"
      using assms(3) sa due ns1 by (simp add: check_server_def get_server_config_def)
    let ?st1 = "check_member sid cf name (tc1, sc1, wb)"
    let ?Q = "\<lambda>v. (\<forall>m \<in> set (server_rows sid v). m_normalized m \<noteq> lower name)
                 \<and> absent sid name v"
    have step: "?Q (snd (snd (check_member s c n st)))" if "?Q (snd (snd st))"
      for s c n and st :: "nat \<times> nat \<times> world"
      using that key_gone_check_member[of sid st "lower name" s c n]
        absent_check_member[of sid name st s c n] by blast
    have q1: "?Q (snd (snd ?st1))"
      using removed_by_check_member[OF nb ar fails, of sid sc1] by simp
    have q2: "?Q (snd (snd (check_server sid (tc, sc, wa))))"
      unfolding cs
      by (rule fold_check_member_keeps[where P = ?Q]) (use step q1 in blast)+
    have q3: "?Q (snd (snd (fold check_server post (check_server sid (tc, sc, wa)))))"
      by (rule fold_check_server_keeps[where P = ?Q]) (use step q2 in blast)+
    have "fold check_server (select_servers w) (0, 0, w)
            = fold check_server post (check_server sid (tc, sc, wa))"
      using sel pre by simp
    then have "?Q (live_guild_check w)"
      using q3 by (simp add: absent_iff server_rows_def live_guild_check_members)
    then show ?thesis using ar by simp
  qed
  show ?thesis using on off by blast
qed

theorem sweep_removal_policy_witness:
  "normalized_ok sweep_groups
   \<and> select_servers sweep_groups = [''A'']
   \<and> select_due ''A'' sweep_groups = [''Alice'', ''Bob'']
   \<and> \<not> truthy (fst (check_aqw_guild ''Alice'' ''Legion'' (throttle 0 sweep_groups)))
   \<and> absent ''A'' ''Alice'' (live_guild_check sweep_groups)
   \<and> get_members ''A'' (live_guild_check sweep_groups) = [(''Bob'', [])]
   \<and> ''B'' \<notin> set (select_servers sweep_groups)
   \<and> server_rows ''B'' (live_guild_check sweep_groups) = server_rows ''B'' sweep_groups"
proof -
  have h: "normalized_ok sweep_groups" "distinct (map fst (servers sweep_groups))"
    "get_server_config ''A'' sweep_groups = Some (cfg 10 11 True)"
    "get_server_config ''B'' sweep_groups = Some (cfg 20 21 False)"
    by (simp_all add: normalized_ok_def ex_defs lower_def lower_char_def
        get_server_config_def)
  have e: "select_servers sweep_groups = [] @ ''A'' # []"
    "fold check_server [] (0, 0, sweep_groups) = (0, 0, sweep_groups)"
    "select_due ''A'' sweep_groups = [] @ ''Alice'' # [''Bob'']"
    "fold (check_member ''A'' (cfg 10 11 True)) [] (0, 0, sweep_groups) = (0, 0, sweep_groups)"
    "\<not> truthy (fst (check_aqw_guild ''Alice'' (guild_name (cfg 10 11 True))
                     (throttle 0 sweep_groups)))"
    "\<not> autoremove (cfg 20 21 False)"
    by (simp_all add: eval_defs)
  have g: "get_members ''A'' (live_guild_check sweep_groups) = [(''Bob'', [])]"
    by (simp add: eval_defs)
  have a: "absent ''A'' ''Alice'' (live_guild_check sweep_groups)"
    using sweep_removal_policy[OF h(1,2,3), of "[]" "[]" 0 0 sweep_groups "[]" "''Alice''"
        "[''Bob'']" 0 0 sweep_groups] e
    by simp
  have b: "''B'' \<notin> set (select_servers sweep_groups)
     \<and> server_rows ''B'' (live_guild_check sweep_groups) = server_rows ''B'' sweep_groups"
    using sweep_removal_policy[OF h(1,2,4), of "[]" "[]" 0 0 sweep_groups "[]" "''Alice''"
        "[''Bob'']" 0 0 sweep_groups] e(6)
    by simp
  show ?thesis using h(1) e(1,3,5) g a b by (simp add: cfg_def)
qed

end
